theory Spec2Isabelle
  imports Main
begin

section \<open>JavaScript values used by the scheduler\<close>

text \<open>
  An \<open>Error\<close> object is its message. A value that is a boolean or \<open>undefined\<close> is a
  \<open>bool option\<close> (\<open>None\<close> is \<open>undefined\<close>); only \<open>true\<close> is truthy. A numeric
  option that may be absent is an \<open>int option\<close>; \<open>x || d\<close> on it yields \<open>d\<close> when \<open>x\<close>
  is absent or \<open>0\<close>.
\<close>

datatype js_error = Error (message: string)

datatype 'a settled = Resolved 'a | Rejected js_error

definition truthy :: "bool option \<Rightarrow> bool" where
  "truthy a = (a = Some True)"

definition or_default :: "int option \<Rightarrow> int \<Rightarrow> int" where
  "or_default x d = (case x of None \<Rightarrow> d | Some v \<Rightarrow> if v = 0 then d else v)"

text \<open>
  Numbers are IEEE doubles. The model follows a number exactly while it is an integer
  of magnitude at most \<^verbatim>\<open>Number.MAX_SAFE_INTEGER\<close>, the range in which a double holds
  every integer and sums, differences, products and \<^verbatim>\<open>Math.pow\<close> of integers are exact.
  \<open>Unsafe\<close> is any other value an operation on integers yields: one of magnitude
  \<^verbatim>\<open>2^53\<close> or more, an infinity, \<^verbatim>\<open>NaN\<close>, or the product of one of these with a number.
  The configured numbers and the clock are integers that a double holds exactly.
\<close>

datatype js_number = Num int | Unsafe

text \<open>The number an arithmetic operation yields when its exact result is \<open>n\<close>.\<close>

definition js_result :: "int \<Rightarrow> js_number" where
  "js_result n = (if \<bar>n\<bar> \<le> 9007199254740991 then Num n else Unsafe)"

text \<open>
  The delay \<^verbatim>\<open>setTimeout\<close> uses, in milliseconds: a delay below 1, above 2147483647 or
  \<^verbatim>\<open>NaN\<close> is set to 1.
\<close>

fun timer_ms :: "js_number \<Rightarrow> int" where
  "timer_ms (Num n) = (if 1 \<le> n \<and> n \<le> 2147483647 then n else 1)"
| "timer_ms Unsafe = 1"

subsection \<open>Strings\<close>

fun starts_with :: "string \<Rightarrow> string \<Rightarrow> bool" where
  "starts_with [] hay = True"
| "starts_with (n # ns) [] = False"
| "starts_with (n # ns) (h # hs) = (n = h \<and> starts_with ns hs)"

text \<open>\<open>str_includes hay needle\<close> is \<^verbatim>\<open>hay.includes(needle)\<close>.\<close>

fun str_includes :: "string \<Rightarrow> string \<Rightarrow> bool" where
  "str_includes [] needle = (needle = [])"
| "str_includes (h # hs) needle = (starts_with needle (h # hs) \<or> str_includes hs needle)"

definition is_digit :: "char \<Rightarrow> bool" where
  "is_digit c = (c \<in> set ''0123456789'')"

definition digit_val :: "char \<Rightarrow> nat" where
  "digit_val c = (of_char c :: nat) - 48"

text \<open>
  The first match of \<^verbatim>\<open>/(\d{3})/\<close>, already through \<^verbatim>\<open>parseInt\<close>: the leftmost three
  consecutive decimal digits, read as a number.
\<close>

fun match_3digits :: "string \<Rightarrow> nat option" where
  "match_3digits (a # b # c # rest) =
     (if is_digit a \<and> is_digit b \<and> is_digit c
      then Some (100 * digit_val a + 10 * digit_val b + digit_val c)
      else match_3digits (b # c # rest))"
| "match_3digits [a, b] = None"
| "match_3digits [a] = None"
| "match_3digits [] = None"

definition digit_char :: "nat \<Rightarrow> char" where
  "digit_char d = char_of (48 + d)"

text \<open>A non-negative number in a template literal: its decimal digits.\<close>

fun string_of_nat :: "nat \<Rightarrow> string" where
  "string_of_nat n =
     (if n < 10 then [digit_char n] else string_of_nat (n div 10) @ [digit_char (n mod 10)])"

section \<open>The world: limiter state, policy cache, clock and observations\<close>

text \<open>
  The third-party \<^verbatim>\<open>robots-parser\<close> instance is a collaborator: its two methods may
  throw, \<^verbatim>\<open>isAllowed\<close> answers a boolean or \<open>undefined\<close>, \<^verbatim>\<open>getCrawlDelay\<close> a number
  of seconds or \<open>undefined\<close>.
\<close>

record robots =
  p_isAllowed :: "string \<Rightarrow> string \<Rightarrow> js_error + bool option"
  p_getCrawlDelay :: "string \<Rightarrow> js_error + int option"

text \<open>
  Observations. Each \<^verbatim>\<open>sleep\<close> is tagged with the place it is called from and carries
  the milliseconds its timer ran; \<open>Counters\<close>
  is a snapshot of \<^verbatim>\<open>globalActive\<close> and \<^verbatim>\<open>domainActive\<close> taken after every write to
  either; \<open>Admitted d t\<close> records \<^verbatim>\<open>lastRequestTime.set(d, t)\<close>; \<open>Invoke i\<close> is the
  \<open>i\<close>-th call of a unit of work; \<open>RobotsGet u\<close> is one \<^verbatim>\<open>axios.get(u)\<close>.
\<close>

datatype event =
    PollWait int
  | SpacingWait int
  | BackoffWait int
  | Counters int "string \<Rightarrow> int option"
  | Admitted string int
  | Invoke nat
  | RobotsGet string

text \<open>
  \<open>now\<close> is what \<^verbatim>\<open>Date.now()\<close> reads. \<open>pending\<close> holds the \<^verbatim>\<open>finally\<close> block of an
  \<^verbatim>\<open>execute\<close> call that has evaluated \<^verbatim>\<open>return this.execute(url, fn, attempt + 1)\<close>:
  the callee runs synchronously up to its first \<^verbatim>\<open>await\<close>, and only then does the
  caller's \<^verbatim>\<open>finally\<close> run.
\<close>

record world =
  globalActive :: int
  domainActive :: "string \<Rightarrow> int option"
  lastRequestTime :: "string \<Rightarrow> int option"
  robotsCache :: "string \<Rightarrow> robots option"
  now :: int
  pending :: "string option"
  calls :: nat
  fetches :: nat
  trace :: "event list"

record url_parts =
  protocol :: string
  hostname :: string
  port :: string

text \<open>
  \<^verbatim>\<open>response.data\<close>: the text of the body, or the object \<^verbatim>\<open>axios\<close> parsed a JSON body
  into.
\<close>

datatype payload = Text string | Parsed

datatype http_result = Response nat payload | NetworkError string

text \<open>
  One run of the page closure that \<^verbatim>\<open>scrapeUrl\<close> hands to the limiter: what each
  browser call does. \<open>Some m\<close> or \<open>Inl m\<close> is a call that throws with message \<open>m\<close>.
\<close>

record page_run =
  newPage :: "string option"
  setExtraHTTPHeaders :: "string option"
  goto :: "string + nat option"
  waitForTimeout :: "string option"
  detectAntiBot :: "string option"
  extractor_extract :: "string + string"
  page_close :: "string option"
  page_ms :: nat

text \<open>
  The collaborators: the platform's \<^verbatim>\<open>new URL\<close> (\<open>None\<close> when it throws),
  \<^verbatim>\<open>axios.get\<close> for the \<open>i\<close>-th policy fetch (its raw result and how long it took),
  the \<^verbatim>\<open>robots-parser\<close> constructor, and the browser on its \<open>i\<close>-th page.
\<close>

record env =
  parse_url :: "string \<Rightarrow> url_parts option"
  axios_get :: "nat \<Rightarrow> string \<Rightarrow> http_result \<times> nat"
  robotsParser :: "string \<Rightarrow> payload \<Rightarrow> js_error + robots"
  browser :: "nat \<Rightarrow> string \<Rightarrow> page_run"

section \<open>RateLimiter\<close>

record options =
  opt_concurrency :: "int option"
  opt_perDomainConcurrency :: "int option"
  opt_requestDelay :: "int option"
  opt_maxRetries :: "int option"
  opt_backoffBase :: "int option"

record limiter =
  globalConcurrency :: int
  perDomainConcurrency :: int
  requestDelay :: int
  maxRetries :: int
  backoffBase :: int

definition RateLimiter_new :: "options \<Rightarrow> limiter" where
  "RateLimiter_new opts =
     \<lparr> globalConcurrency = or_default (opt_concurrency opts) 3,
       perDomainConcurrency = or_default (opt_perDomainConcurrency opts) 1,
       requestDelay = or_default (opt_requestDelay opts) 2000,
       maxRetries = or_default (opt_maxRetries opts) 3,
       backoffBase = or_default (opt_backoffBase opts) 2 \<rparr>"

text \<open>The mutable fields as the two constructors leave them, at clock time \<open>t\<close>.\<close>

definition fresh_world :: "int \<Rightarrow> world" where
  "fresh_world t =
     \<lparr> globalActive = 0, domainActive = Map.empty, lastRequestTime = Map.empty,
       robotsCache = Map.empty, now = t, pending = None, calls = 0, fetches = 0,
       trace = [] \<rparr>"

definition RateLimiter_getDomain :: "env \<Rightarrow> string \<Rightarrow> string" where
  "RateLimiter_getDomain e url =
     (case parse_url e url of Some u \<Rightarrow> hostname u | None \<Rightarrow> ''unknown'')"

definition calculateBackoff :: "limiter \<Rightarrow> nat \<Rightarrow> js_number" where
  "calculateBackoff rl attempt =
     (case js_result (backoffBase rl ^ attempt) of
        Num p \<Rightarrow> js_result (requestDelay rl * p)
      | Unsafe \<Rightarrow> Unsafe)"

definition active_count :: "world \<Rightarrow> string \<Rightarrow> int" where
  "active_count s d = or_default (domainActive s d) 0"

definition canRequestDomain :: "limiter \<Rightarrow> string \<Rightarrow> world \<Rightarrow> bool" where
  "canRequestDomain rl d s = (active_count s d < perDomainConcurrency rl)"

definition snapshot :: "world \<Rightarrow> world" where
  "snapshot s = s\<lparr>trace := trace s @ [Counters (globalActive s) (domainActive s)]\<rparr>"

text \<open>The \<^verbatim>\<open>finally\<close> block of \<^verbatim>\<open>execute\<close>.\<close>

definition release :: "string \<Rightarrow> world \<Rightarrow> world" where
  "release d s =
     (let s1 = snapshot (s\<lparr>globalActive := globalActive s - 1\<rparr>)
      in snapshot (s1\<lparr>domainActive := (domainActive s1)(d \<mapsto> or_default (domainActive s1 d) 1 - 1)\<rparr>))"

text \<open>A suspension point: a deferred \<^verbatim>\<open>finally\<close> of the caller runs now.\<close>

definition yield :: "world \<Rightarrow> world" where
  "yield s = (case pending s of None \<Rightarrow> s | Some d \<Rightarrow> release d (s\<lparr>pending := None\<rparr>))"

text \<open>\<^verbatim>\<open>await this.sleep(ms)\<close>: the clock moves by what the timer ran.\<close>

definition sleep :: "(int \<Rightarrow> event) \<Rightarrow> js_number \<Rightarrow> world \<Rightarrow> world" where
  "sleep tag ms s =
     (let s1 = yield s
      in s1\<lparr>now := now s1 + timer_ms ms, trace := trace s1 @ [tag (timer_ms ms)]\<rparr>)"

text \<open>
  \<^verbatim>\<open>await this.enforceDelay(domain)\<close>. The body reads the map and the clock before it
  suspends; the \<^verbatim>\<open>await\<close> in \<^verbatim>\<open>execute\<close> suspends even when the body did not sleep.
  \<^verbatim>\<open>if (lastTime)\<close> is false for a missing entry and for the time \<open>0\<close>.
\<close>

definition enforceDelay :: "limiter \<Rightarrow> string \<Rightarrow> world \<Rightarrow> world" where
  "enforceDelay rl d s =
     (case lastRequestTime s d of
        None \<Rightarrow> yield s
      | Some lastTime \<Rightarrow>
          if lastTime = 0 then yield s
          else let elapsed = now s - lastTime
               in if elapsed < requestDelay rl
                  then sleep SpacingWait (js_result (requestDelay rl - elapsed)) s
                  else yield s)"

text \<open>
  The two polling loops. Nothing bounds them in the source, so they take fuel and
  \<open>None\<close> is a loop that is still polling when the fuel is gone.
\<close>

fun wait_global :: "nat \<Rightarrow> limiter \<Rightarrow> world \<Rightarrow> world option" where
  "wait_global 0 rl s = None"
| "wait_global (Suc n) rl s =
     (if globalActive s \<ge> globalConcurrency rl then wait_global n rl (sleep PollWait (Num 100) s)
      else Some s)"

fun wait_domain :: "nat \<Rightarrow> limiter \<Rightarrow> string \<Rightarrow> world \<Rightarrow> world option" where
  "wait_domain 0 rl d s = None"
| "wait_domain (Suc n) rl d s =
     (if \<not> canRequestDomain rl d s then wait_domain n rl d (sleep PollWait (Num 100) s)
      else Some s)"

text \<open>The three writes under the comment \<^verbatim>\<open>// Increment counters\<close>.\<close>

definition admit :: "string \<Rightarrow> world \<Rightarrow> world" where
  "admit d s =
     (let s1 = snapshot (s\<lparr>globalActive := globalActive s + 1\<rparr>);
          s2 = snapshot (s1\<lparr>domainActive := (domainActive s1)(d \<mapsto> or_default (domainActive s1 d) 0 + 1)\<rparr>)
      in s2\<lparr>lastRequestTime := (lastRequestTime s2)(d \<mapsto> now s2),
            trace := trace s2 @ [Admitted d (now s2)]\<rparr>)"

text \<open>
  Lines 88 to 98 of \<^verbatim>\<open>execute\<close>: the two loops and \<^verbatim>\<open>await this.enforceDelay(domain)\<close>,
  up to the point where that \<^verbatim>\<open>await\<close> resumes.
\<close>

definition approach :: "nat \<Rightarrow> limiter \<Rightarrow> string \<Rightarrow> world \<Rightarrow> world option" where
  "approach fuel rl d s =
     (case wait_global fuel rl s of
        None \<Rightarrow> None
      | Some s1 \<Rightarrow>
          (case wait_domain fuel rl d s1 of
             None \<Rightarrow> None
           | Some s2 \<Rightarrow> Some (enforceDelay rl d s2)))"

definition admission :: "nat \<Rightarrow> limiter \<Rightarrow> string \<Rightarrow> world \<Rightarrow> world option" where
  "admission fuel rl d s = map_option (admit d) (approach fuel rl d s)"

text \<open>
  Two calls of \<^verbatim>\<open>execute\<close> made in one turn, the second before the promise of the first
  is awaited, as \<^verbatim>\<open>Promise.all(urls.map(u => limiter.execute(u, fn)))\<close> makes them. A
  call runs at once up to its first \<^verbatim>\<open>await\<close>. When a call has nothing to wait for
  (both loop conditions are false and \<^verbatim>\<open>enforceDelay\<close> does not sleep: it adds no
  observation) that first \<^verbatim>\<open>await\<close> is the one of line 98, which resumes in a later
  microtask; so the second call runs its lines 88 to 98 before the first call writes
  anything, and then the two continuations run in call order, each making the three
  writes of lines 101 to 103 before it calls its unit of work. The model lets no time
  pass between them. The result is the world after the six writes, both units of work
  in flight. \<open>None\<close>: a call had to wait, a schedule this definition does not follow.
\<close>

definition overlapping_calls ::
  "nat \<Rightarrow> env \<Rightarrow> limiter \<Rightarrow> string \<Rightarrow> string \<Rightarrow> world \<Rightarrow> world option" where
  "overlapping_calls fuel e rl url1 url2 s =
     (case approach fuel rl (RateLimiter_getDomain e url1) s of
        None \<Rightarrow> None
      | Some s1 \<Rightarrow>
          if length (trace s1) \<noteq> length (trace s) then None
          else (case approach fuel rl (RateLimiter_getDomain e url2) s1 of
                  None \<Rightarrow> None
                | Some s2 \<Rightarrow>
                    if length (trace s2) \<noteq> length (trace s1) then None
                    else Some (admit (RateLimiter_getDomain e url2)
                                 (admit (RateLimiter_getDomain e url1) s2))))"

text \<open>
  \<^verbatim>\<open>await fn()\<close>: the unit of work is a closure; its \<open>i\<close>-th call settles with
  \<open>fst (fn i)\<close> after \<open>snd (fn i)\<close> milliseconds.
\<close>

definition invoke :: "(nat \<Rightarrow> 'a settled \<times> nat) \<Rightarrow> world \<Rightarrow> 'a settled \<times> world" where
  "invoke fn s =
     (fst (fn (calls s)),
      s\<lparr>calls := Suc (calls s), now := now s + int (snd (fn (calls s))),
        trace := trace s @ [Invoke (calls s)]\<rparr>)"

definition shouldRetry :: "js_error \<Rightarrow> bool" where
  "shouldRetry error =
     (if str_includes (message error) ''timeout'' then True
      else if str_includes (message error) ''ECONNRESET'' then True
      else if str_includes (message error) ''ETIMEDOUT'' then True
      else (case match_3digits (message error) of
              Some status \<Rightarrow> status = 429 \<or> status \<ge> 500
            | None \<Rightarrow> False))"

text \<open>
  \<^verbatim>\<open>execute(url, fn, attempt)\<close>. \<open>Inr\<close> is the value the promise resolves with, \<open>Inl\<close>
  the error it rejects with. On the retry path the caller's \<^verbatim>\<open>finally\<close> is deferred to
  the callee's first suspension (\<open>pending\<close>); on the other two paths it runs at once.
\<close>

function execute ::
  "nat \<Rightarrow> env \<Rightarrow> limiter \<Rightarrow> string \<Rightarrow> (nat \<Rightarrow> 'a settled \<times> nat) \<Rightarrow> nat \<Rightarrow> world
     \<Rightarrow> ((js_error + 'a) \<times> world) option" where
  "execute fuel e rl url fn attempt s =
     (case admission fuel rl (RateLimiter_getDomain e url) s of
        None \<Rightarrow> None
      | Some s1 \<Rightarrow>
          (case invoke fn s1 of
             (Resolved result, s2) \<Rightarrow> Some (Inr result, release (RateLimiter_getDomain e url) s2)
           | (Rejected error, s2) \<Rightarrow>
               if int attempt < maxRetries rl \<and> shouldRetry error
               then execute fuel e rl url fn (Suc attempt)
                      ((sleep BackoffWait (calculateBackoff rl attempt) s2)
                         \<lparr>pending := Some (RateLimiter_getDomain e url)\<rparr>)
               else Some (Inl error, release (RateLimiter_getDomain e url) s2)))"
  by pat_completeness auto
termination
  by (relation "measure (\<lambda>(fuel, e, rl, url, fn, attempt, s). nat (maxRetries rl - int attempt))")
     auto

section \<open>RobotsChecker\<close>

definition RobotsChecker_getDomain :: "env \<Rightarrow> string \<Rightarrow> string option" where
  "RobotsChecker_getDomain e url =
     (case parse_url e url of
        Some urlObj \<Rightarrow> Some (protocol urlObj @ ''//'' @ hostname urlObj)
      | None \<Rightarrow> None)"

text \<open>
  \<^verbatim>\<open>validateStatus: (status) => status < 500\<close> makes \<^verbatim>\<open>axios.get\<close> throw on the other
  statuses; the \<^verbatim>\<open>catch\<close> block answers the empty string for every throw.
\<close>

definition fetchRobotsTxt :: "env \<Rightarrow> string \<Rightarrow> world \<Rightarrow> payload \<times> world" where
  "fetchRobotsTxt e domain s =
     (let robotsUrl = domain @ ''/robots.txt'';
          (response, ms) = axios_get e (fetches s) robotsUrl;
          s1 = s\<lparr>fetches := Suc (fetches s), now := now s + int ms,
                 trace := trace s @ [RobotsGet robotsUrl]\<rparr>
      in (case response of
            Response status body \<Rightarrow>
              if status < 500 then (if status = 200 then (body, s1) else (Text [], s1))
              else (Text [], s1)
          | NetworkError m \<Rightarrow> (Text [], s1)))"

definition getRobotsParser :: "env \<Rightarrow> string \<Rightarrow> world \<Rightarrow> (js_error + robots) \<times> world" where
  "getRobotsParser e domain s =
     (case robotsCache s domain of
        Some parser \<Rightarrow> (Inr parser, s)
      | None \<Rightarrow>
          (let (robotsTxt, s1) = fetchRobotsTxt e domain s
           in (case robotsParser e (domain @ ''/robots.txt'') robotsTxt of
                 Inl err \<Rightarrow> (Inl err, s1)
               | Inr parser \<Rightarrow> (Inr parser, s1\<lparr>robotsCache := (robotsCache s1)(domain \<mapsto> parser)\<rparr>))))"

definition isAllowed :: "env \<Rightarrow> string \<Rightarrow> string \<Rightarrow> world \<Rightarrow> bool option \<times> world" where
  "isAllowed e url userAgent s =
     (case RobotsChecker_getDomain e url of
        None \<Rightarrow> (Some False, s)
      | Some domain \<Rightarrow>
          (case getRobotsParser e domain s of
             (Inl err, s1) \<Rightarrow> (Some False, s1)
           | (Inr parser, s1) \<Rightarrow>
               (case p_isAllowed parser url userAgent of
                  Inl err \<Rightarrow> (Some False, s1)
                | Inr allowed \<Rightarrow> (allowed, s1))))"

record url_check =
  allowed :: "bool option"
  reason :: string

definition checkUrl :: "env \<Rightarrow> string \<Rightarrow> string \<Rightarrow> world \<Rightarrow> url_check \<times> world" where
  "checkUrl e url userAgent s =
     (let (a, s1) = isAllowed e url userAgent s
      in (\<lparr> allowed = a, reason = (if truthy a then [] else ''Disallowed by robots.txt'') \<rparr>, s1))"

text \<open>\<^verbatim>\<open>delay ? delay * 1000 : 0\<close>: seconds to milliseconds.\<close>

definition getCrawlDelay :: "env \<Rightarrow> string \<Rightarrow> string \<Rightarrow> world \<Rightarrow> int \<times> world" where
  "getCrawlDelay e domain userAgent s =
     (case getRobotsParser e domain s of
        (Inl err, s1) \<Rightarrow> (0, s1)
      | (Inr parser, s1) \<Rightarrow>
          (case p_getCrawlDelay parser userAgent of
             Inl err \<Rightarrow> (0, s1)
           | Inr None \<Rightarrow> (0, s1)
           | Inr (Some delay) \<Rightarrow> (if delay = 0 then 0 else delay * 1000, s1)))"


section \<open>Scraper\<close>

record outcome =
  o_url :: string
  status :: string
  o_reason :: string
  data :: "string option"

definition error_outcome :: "string \<Rightarrow> string \<Rightarrow> outcome" where
  "error_outcome url m = \<lparr> o_url = url, status = ''error'', o_reason = m, data = None \<rparr>"

definition skipped_outcome :: "string \<Rightarrow> string \<Rightarrow> outcome" where
  "skipped_outcome url m = \<lparr> o_url = url, status = ''skipped'', o_reason = m, data = None \<rparr>"

text \<open>
  The \<^verbatim>\<open>try\<close> block of the closure passed to \<^verbatim>\<open>execute\<close>, with its \<^verbatim>\<open>catch\<close>: what the
  closure returns when \<^verbatim>\<open>page.close()\<close> does not throw.
\<close>

definition page_body :: "string \<Rightarrow> page_run \<Rightarrow> outcome" where
  "page_body url p =
     (case setExtraHTTPHeaders p of
        Some m \<Rightarrow> error_outcome url m
      | None \<Rightarrow>
          (case goto p of
             Inl m \<Rightarrow> error_outcome url m
           | Inr None \<Rightarrow> error_outcome url ''HTTP unknown''
           | Inr (Some st) \<Rightarrow>
               if st = 0 then error_outcome url ''HTTP unknown''
               else if st \<ge> 400 then error_outcome url (''HTTP '' @ string_of_nat st)
               else (case waitForTimeout p of
                       Some m \<Rightarrow> error_outcome url m
                     | None \<Rightarrow>
                         (case detectAntiBot p of
                            Some ty \<Rightarrow> skipped_outcome url (''Anti-bot detected: '' @ ty)
                          | None \<Rightarrow>
                              (case extractor_extract p of
                                 Inl m \<Rightarrow> error_outcome url m
                               | Inr d \<Rightarrow> \<lparr> o_url = url, status = ''success'', o_reason = [],
                                            data = Some d \<rparr>)))))"

text \<open>
  The closure: \<^verbatim>\<open>newPage()\<close> is outside the \<^verbatim>\<open>try\<close>, and a throw in the \<^verbatim>\<open>finally\<close>
  block replaces whatever the \<^verbatim>\<open>try\<close> and \<^verbatim>\<open>catch\<close> blocks returned.
\<close>

definition page_fn :: "env \<Rightarrow> string \<Rightarrow> nat \<Rightarrow> outcome settled \<times> nat" where
  "page_fn e url i =
     (let p = browser e i url
      in ((case newPage p of
             Some m \<Rightarrow> Rejected (Error m)
           | None \<Rightarrow>
               (case page_close p of
                  Some m \<Rightarrow> Rejected (Error m)
                | None \<Rightarrow> Resolved (page_body url p))),
          page_ms p))"

definition scrapeUrl ::
  "nat \<Rightarrow> env \<Rightarrow> limiter \<Rightarrow> string \<Rightarrow> world \<Rightarrow> ((js_error + outcome) \<times> world) option" where
  "scrapeUrl fuel e rl url s =
     (let (robotsCheck, s1) = checkUrl e url ''*'' s
      in if \<not> truthy (allowed robotsCheck)
         then Some (Inr (skipped_outcome url (reason robotsCheck)), s1)
         else (case execute fuel e rl url (page_fn e url) 0 s1 of
                 None \<Rightarrow> None
               | Some (Inr result, s2) \<Rightarrow> Some (Inr result, s2)
               | Some (Inl error, s2) \<Rightarrow> Some (Inr (error_outcome url (message error)), s2)))"

text \<open>The \<^verbatim>\<open>for\<close> loop of \<^verbatim>\<open>scrapeUrls\<close>, with \<^verbatim>\<open>results\<close> as the accumulator.\<close>

fun scrape_loop ::
  "nat \<Rightarrow> env \<Rightarrow> limiter \<Rightarrow> string list \<Rightarrow> outcome list \<Rightarrow> world
     \<Rightarrow> (outcome list \<times> world) option" where
  "scrape_loop fuel e rl [] results s = Some (results, s)"
| "scrape_loop fuel e rl (url # urls) results s =
     (case scrapeUrl fuel e rl url s of
        None \<Rightarrow> None
      | Some (Inr result, s1) \<Rightarrow> scrape_loop fuel e rl urls (results @ [result]) s1
      | Some (Inl error, s1) \<Rightarrow>
          scrape_loop fuel e rl urls (results @ [error_outcome url (message error)]) s1)"

definition scrapeUrls ::
  "nat \<Rightarrow> env \<Rightarrow> limiter \<Rightarrow> string list \<Rightarrow> world \<Rightarrow> (outcome list \<times> world) option" where
  "scrapeUrls fuel e rl urls s = scrape_loop fuel e rl urls [] s"

section \<open>Observations of a run\<close>

fun snapshot_of :: "event \<Rightarrow> (int \<times> (string \<Rightarrow> int option)) list" where
  "snapshot_of (Counters g m) = [(g, m)]"
| "snapshot_of ev = []"

text \<open>The counter values after every write, oldest first.\<close>

definition snapshots :: "event list \<Rightarrow> (int \<times> (string \<Rightarrow> int option)) list" where
  "snapshots tr = concat (map snapshot_of tr)"

fun admission_of :: "string \<Rightarrow> event \<Rightarrow> int list" where
  "admission_of d (Admitted d' t) = (if d' = d then [t] else [])"
| "admission_of d ev = []"

text \<open>The request start times recorded for one domain, oldest first.\<close>

definition admissions :: "string \<Rightarrow> event list \<Rightarrow> int list" where
  "admissions d tr = concat (map (admission_of d) tr)"

fun is_retry_event :: "event \<Rightarrow> bool" where
  "is_retry_event (Invoke i) = True"
| "is_retry_event (BackoffWait ms) = True"
| "is_retry_event ev = False"

text \<open>The calls of the unit of work and the backoff waits between them.\<close>

definition retry_view :: "event list \<Rightarrow> event list" where
  "retry_view tr = filter is_retry_event tr"



fun is_limiter_event :: "event \<Rightarrow> bool" where
  "is_limiter_event (RobotsGet u) = False"
| "is_limiter_event ev = True"

definition limiter_view :: "event list \<Rightarrow> event list" where
  "limiter_view tr = filter is_limiter_event tr"

text \<open>Consecutive times are at least \<open>gap\<close> apart.\<close>

fun spaced :: "int \<Rightarrow> int list \<Rightarrow> bool" where
  "spaced gap (t1 # t2 # ts) = (gap \<le> t2 - t1 \<and> spaced gap (t2 # ts))"
| "spaced gap [t] = True"
| "spaced gap [] = True"

definition within_limits :: "limiter \<Rightarrow> int \<times> (string \<Rightarrow> int option) \<Rightarrow> bool" where
  "within_limits rl c =
     (0 \<le> fst c \<and> fst c \<le> globalConcurrency rl
      \<and> (\<forall>d. 0 \<le> or_default (snd c d) 0 \<and> or_default (snd c d) 0 \<le> perDomainConcurrency rl))"

text \<open>
  The three situations of a sequential run: no request in flight; one request in
  flight for domain \<open>d\<close>; and that request's \<^verbatim>\<open>finally\<close> block deferred while its retry
  starts.
\<close>

definition idle :: "world \<Rightarrow> bool" where
  "idle s = (pending s = None \<and> globalActive s = 0 \<and> (\<forall>d. active_count s d = 0))"

definition busy :: "string \<Rightarrow> world \<Rightarrow> bool" where
  "busy d s = (pending s = None \<and> globalActive s = 1 \<and> active_count s d = 1
               \<and> (\<forall>d'. d' \<noteq> d \<longrightarrow> active_count s d' = 0))"

definition held :: "string \<Rightarrow> world \<Rightarrow> bool" where
  "held d s = (pending s = Some d \<and> globalActive s = 1 \<and> active_count s d = 1
               \<and> (\<forall>d'. d' \<noteq> d \<longrightarrow> active_count s d' = 0))"

definition counters_ok :: "limiter \<Rightarrow> world \<Rightarrow> bool" where
  "counters_ok rl s = (\<forall>c \<in> set (snapshots (trace s)). within_limits rl c)"

text \<open>
  The clock is past zero, and the time stored for a domain is the start of its latest
  request.
\<close>

definition spacing_ok :: "limiter \<Rightarrow> world \<Rightarrow> bool" where
  "spacing_ok rl s =
     (0 < now s
      \<and> (\<forall>d. spaced (requestDelay rl) (admissions d (trace s))
             \<and> (admissions d (trace s) \<noteq> [] \<longrightarrow>
                  lastRequestTime s d = Some (last (admissions d (trace s)))
                  \<and> 0 < last (admissions d (trace s))
                  \<and> last (admissions d (trace s)) \<le> now s)))"

text \<open>A step that neither calls the unit of work nor starts a request.\<close>

definition quiet :: "world \<Rightarrow> world \<Rightarrow> bool" where
  "quiet s s1 =
     (now s \<le> now s1 \<and> lastRequestTime s1 = lastRequestTime s \<and> calls s1 = calls s
      \<and> fetches s1 = fetches s \<and> robotsCache s1 = robotsCache s
      \<and> retry_view (trace s1) = retry_view (trace s)
      \<and> (\<forall>d. admissions d (trace s1) = admissions d (trace s)))"

text \<open>
  The values written to \<^verbatim>\<open>globalActive\<close> so far, a deferred \<^verbatim>\<open>finally\<close> block counted
  as run.
\<close>

definition counter_history :: "world \<Rightarrow> int list" where
  "counter_history s =
     map fst (snapshots (trace s))
     @ (case pending s of None \<Rightarrow> [] | Some d \<Rightarrow> [globalActive s - 1, globalActive s - 1])"

text \<open>A step of the policy checker: it leaves the limiter alone.\<close>

definition policy_step :: "world \<Rightarrow> world \<Rightarrow> bool" where
  "policy_step s s1 =
     (globalActive s1 = globalActive s \<and> domainActive s1 = domainActive s
      \<and> lastRequestTime s1 = lastRequestTime s \<and> pending s1 = pending s
      \<and> calls s1 = calls s \<and> now s \<le> now s1 \<and> fetches s \<le> fetches s1
      \<and> limiter_view (trace s1) = limiter_view (trace s))"

definition degraded :: "http_result \<Rightarrow> bool" where
  "degraded r = (case r of Response st body \<Rightarrow> 400 \<le> st | NetworkError m \<Rightarrow> True)"

section \<open>Stand-ins for the collaborators\<close>

text \<open>
  Concrete collaborators on which the model runs. The URL parser accepts
  \<^verbatim>\<open>https://host/path\<close> and \<^verbatim>\<open>https://host:port/path\<close>. On the network, hosts named
  \<^verbatim>\<open>nobots\<close> answer 404, hosts named \<^verbatim>\<open>down\<close> time out and hosts named \<^verbatim>\<open>json\<close> answer
  200 with a JSON body. The policy parser does what \<^verbatim>\<open>robots-parser\<close> documents: it
  answers \<open>undefined\<close> for a URL that is not of the scheme, host and port of the
  \<^verbatim>\<open>robots.txt\<close> URL it was built with, and its constructor throws on contents that are
  not a string; an empty text allows everything, any other text denies \<^verbatim>\<open>/private\<close>
  and asks for a crawl delay of ten seconds. The browser loads a page in 500 ms; it
  fails to open the first two pages of a URL named \<^verbatim>\<open>flaky\<close> and every page of a URL
  named \<^verbatim>\<open>dead\<close> with a connection reset, and every page of a URL named \<^verbatim>\<open>crash\<close>
  with an error that is not retried.
\<close>

definition stub_parse_url :: "string \<Rightarrow> url_parts option" where
  "stub_parse_url url =
     (if starts_with ''https://'' url
      then (let authority = takeWhile (\<lambda>c. c \<noteq> CHR ''/'') (drop 8 url);
                host = takeWhile (\<lambda>c. c \<noteq> CHR '':'') authority
            in Some \<lparr> protocol = ''https:'', hostname = host,
                       port = drop (Suc (length host)) authority \<rparr>)
      else None)"

definition stub_axios_get :: "nat \<Rightarrow> string \<Rightarrow> http_result \<times> nat" where
  "stub_axios_get i url =
     (if str_includes url ''nobots'' then (Response 404 (Text ''Not Found''), 30)
      else if str_includes url ''down'' then (NetworkError ''ETIMEDOUT'', 5000)
      else if str_includes url ''json'' then (Response 200 Parsed, 30)
      else (Response 200 (Text ''rules''), 30))"

definition stub_same_origin :: "string \<Rightarrow> string \<Rightarrow> bool" where
  "stub_same_origin url robotsUrl =
     (case (stub_parse_url url, stub_parse_url robotsUrl) of
        (Some u, Some r) \<Rightarrow>
          protocol u = protocol r \<and> hostname u = hostname r \<and> port u = port r
      | _ \<Rightarrow> False)"

definition stub_robotsParser :: "string \<Rightarrow> payload \<Rightarrow> js_error + robots" where
  "stub_robotsParser robotsUrl contents =
     (case contents of
        Parsed \<Rightarrow> Inl (Error ''contents.split is not a function'')
      | Text txt \<Rightarrow>
          if str_includes robotsUrl ''broken'' then Inl (Error ''parse failure'')
          else Inr \<lparr> p_isAllowed =
                       (\<lambda>url ua. if \<not> stub_same_origin url robotsUrl then Inr None
                                  else if txt \<noteq> [] \<and> str_includes url ''/boom''
                                  then Inl (Error ''boom'')
                                  else Inr (Some (txt = [] \<or> \<not> str_includes url ''/private''))),
                     p_getCrawlDelay = (\<lambda>ua. Inr (if txt = [] then None else Some 10)) \<rparr>)"

definition stub_browser :: "nat \<Rightarrow> string \<Rightarrow> page_run" where
  "stub_browser i url =
     \<lparr> newPage = (if str_includes url ''crash'' then Some ''browser has been closed''
                  else if str_includes url ''dead'' then Some ''ECONNRESET''
                  else if str_includes url ''flaky'' \<and> i < 2 then Some ''ECONNRESET''
                  else None),
       setExtraHTTPHeaders = None,
       goto = Inr (Some (if str_includes url ''missing'' then 404 else 200)),
       waitForTimeout = None,
       detectAntiBot = None,
       extractor_extract = Inr ''data'',
       page_close = None,
       page_ms = 500 \<rparr>"

definition stub_env :: env where
  "stub_env = \<lparr> parse_url = stub_parse_url, axios_get = stub_axios_get,
                robotsParser = stub_robotsParser, browser = stub_browser \<rparr>"

definition no_options :: options where
  "no_options = \<lparr> opt_concurrency = None, opt_perDomainConcurrency = None,
                  opt_requestDelay = None, opt_maxRetries = None, opt_backoffBase = None \<rparr>"

text \<open>
  Units of work: two transient failures and then a value, or then a fatal error; a
  fatal error at once; failures only; and the timeout of a page load as the browser
  words it.
\<close>

definition flaky_then_ok :: "nat \<Rightarrow> string settled \<times> nat" where
  "flaky_then_ok i =
     (if i < 2 then (Rejected (Error ''HTTP 503''), 10) else (Resolved ''page'', 10))"





section \<open>How the steps of the limiter act on a run\<close>

subsection \<open>Projections\<close>

lemma snapshots_append [simp]: "snapshots (xs @ ys) = snapshots xs @ snapshots ys"
  by (simp add: snapshots_def)

lemma admissions_append [simp]: "admissions d (xs @ ys) = admissions d xs @ admissions d ys"
  by (simp add: admissions_def)

lemma retry_view_append [simp]: "retry_view (xs @ ys) = retry_view xs @ retry_view ys"
  by (simp add: retry_view_def)

lemma limiter_view_append [simp]: "limiter_view (xs @ ys) = limiter_view xs @ limiter_view ys"
  by (simp add: limiter_view_def)

lemma snapshots_simps [simp]:
  "snapshots [] = []" "snapshots (ev # tr) = snapshot_of ev @ snapshots tr"
  by (simp_all add: snapshots_def)

lemma admissions_simps [simp]:
  "admissions d [] = []" "admissions d (ev # tr) = admission_of d ev @ admissions d tr"
  by (simp_all add: admissions_def)

lemma retry_view_simps [simp]:
  "retry_view [] = []"
  "retry_view (ev # tr) = (if is_retry_event ev then ev # retry_view tr else retry_view tr)"
  by (simp_all add: retry_view_def)

lemma spaced_snoc:
  "spaced gap (ts @ [t]) = (spaced gap ts \<and> (ts \<noteq> [] \<longrightarrow> gap \<le> t - last ts))"
  by (induction gap ts rule: spaced.induct) auto

subsection \<open>quiet\<close>

lemma quiet_refl: "quiet s s"
  by (simp add: quiet_def)

lemma quiet_trans: "quiet s s1 \<Longrightarrow> quiet s1 s2 \<Longrightarrow> quiet s s2"
  by (simp add: quiet_def)

lemma spacing_ok_quiet: "spacing_ok rl s \<Longrightarrow> quiet s s1 \<Longrightarrow> spacing_ok rl s1"
  unfolding spacing_ok_def quiet_def by (metis order_less_le_trans order_trans)


subsection \<open>Primitive steps\<close>

lemma active_count_one: "active_count s d = 1 \<Longrightarrow> domainActive s d = Some 1"
  by (auto simp: active_count_def or_default_def split: option.splits if_splits)

lemma idle_count: "idle s \<Longrightarrow> or_default (domainActive s d) 0 = 0"
  by (simp add: idle_def active_count_def)

lemma release_busy:
  assumes "held d s \<or> busy d s" and lim: "1 \<le> perDomainConcurrency rl" "1 \<le> globalConcurrency rl"
  shows "idle (release d (s\<lparr>pending := None\<rparr>))"
    and "quiet s (release d (s\<lparr>pending := None\<rparr>))"
    and "now (release d (s\<lparr>pending := None\<rparr>)) = now s"
    and "counters_ok rl s \<Longrightarrow> counters_ok rl (release d (s\<lparr>pending := None\<rparr>))"
proof -
  from assms(1) have g: "globalActive s = 1" and a: "active_count s d = 1"
    and o: "\<And>d'. d' \<noteq> d \<Longrightarrow> active_count s d' = 0"
    by (auto simp: held_def busy_def)
  have m: "domainActive s d = Some 1" using a by (rule active_count_one)
  show "idle (release d (s\<lparr>pending := None\<rparr>))"
    using g m o by (auto simp: idle_def release_def snapshot_def active_count_def or_default_def Let_def)
  have cnt: "0 \<le> or_default (domainActive s d') 0 \<and> or_default (domainActive s d') 0 \<le> 1" for d'
    using a o [of d'] by (cases "d' = d") (auto simp: active_count_def)
  have w1: "within_limits rl (0, domainActive s)"
    unfolding within_limits_def using lim cnt by (auto intro: order_trans)
  have w2: "within_limits rl (0, (domainActive s)(d \<mapsto> 0))"
    unfolding within_limits_def using lim o
    by (auto simp: active_count_def or_default_def)
  show "counters_ok rl (release d (s\<lparr>pending := None\<rparr>))" if "counters_ok rl s"
    using that g m w1 w2
    by (auto simp: counters_ok_def release_def snapshot_def or_default_def Let_def)
  show "quiet s (release d (s\<lparr>pending := None\<rparr>))"
    by (simp add: quiet_def release_def snapshot_def Let_def)
  show "now (release d (s\<lparr>pending := None\<rparr>)) = now s"
    by (simp add: release_def snapshot_def Let_def)
qed

lemma yield_history: "counter_history (yield s) = counter_history s"
  by (simp add: counter_history_def yield_def release_def snapshot_def Let_def split: option.splits)

lemma sleep_history:
  "snapshot_of (tag (timer_ms ms)) = [] \<Longrightarrow> counter_history (sleep tag ms s) = counter_history s"
proof -
  assume "snapshot_of (tag (timer_ms ms)) = []"
  then have "counter_history (sleep tag ms s) = counter_history (yield s)"
    by (simp add: counter_history_def sleep_def Let_def split: option.splits)
  then show ?thesis by (simp add: yield_history)
qed

lemma enforceDelay_history: "counter_history (enforceDelay rl d s) = counter_history s"
  by (simp add: enforceDelay_def yield_history sleep_history Let_def split: option.splits)

lemma wait_global_history: "wait_global n rl s = Some s1 \<Longrightarrow> counter_history s1 = counter_history s"
  by (induction n rl s rule: wait_global.induct) (auto simp: sleep_history split: if_splits)

lemma wait_domain_history: "wait_domain n rl d s = Some s1 \<Longrightarrow> counter_history s1 = counter_history s"
  by (induction n rl d s rule: wait_domain.induct) (auto simp: sleep_history split: if_splits)

lemma admit_history:
  "pending s = None \<Longrightarrow>
   counter_history (admit d s) = counter_history s @ [globalActive s + 1, globalActive s + 1]"
  by (simp add: counter_history_def admit_def snapshot_def Let_def)

lemma invoke_history: "counter_history (snd (invoke fn s)) = counter_history s"
  by (simp add: counter_history_def invoke_def split: option.splits)

lemma release_history:
  "pending s = None \<Longrightarrow>
   counter_history (release d s) = counter_history s @ [globalActive s - 1, globalActive s - 1]"
  by (simp add: counter_history_def release_def snapshot_def Let_def)

lemma backoff_history:
  "pending s = None \<Longrightarrow>
   counter_history ((sleep BackoffWait ms s)\<lparr>pending := Some d\<rparr>)
     = counter_history s @ [globalActive s - 1, globalActive s - 1]"
  by (simp add: counter_history_def sleep_def yield_def Let_def)

lemma yield_entering:
  assumes "idle s \<or> held d s" and lim: "1 \<le> perDomainConcurrency rl" "1 \<le> globalConcurrency rl"
  shows "idle (yield s) \<and> quiet s (yield s) \<and> now (yield s) = now s
         \<and> (counters_ok rl s \<longrightarrow> counters_ok rl (yield s))"
proof (cases "idle s")
  case True
  then show ?thesis by (simp add: yield_def idle_def quiet_refl)
next
  case False
  with assms(1) have h: "held d s" by blast
  then have y: "yield s = release d (s\<lparr>pending := None\<rparr>)"
    by (simp add: yield_def held_def)
  from h have "held d s \<or> busy d s" by blast
  from release_busy [OF this lim] show ?thesis unfolding y by blast
qed

lemma sleep_entering:
  assumes "idle s \<or> held d s" and lim: "1 \<le> perDomainConcurrency rl" "1 \<le> globalConcurrency rl"
    and tag: "tag = PollWait \<or> tag = SpacingWait"
  shows "idle (sleep tag ms s) \<and> quiet s (sleep tag ms s)
         \<and> now (sleep tag ms s) = now s + timer_ms ms
         \<and> (counters_ok rl s \<longrightarrow> counters_ok rl (sleep tag ms s))"
proof -
  from yield_entering [OF assms(1) lim]
  have y: "idle (yield s)" "quiet s (yield s)" "now (yield s) = now s"
    "counters_ok rl s \<longrightarrow> counters_ok rl (yield s)"
    by blast+
  have pos: "0 \<le> timer_ms ms" by (cases ms) simp_all
  have q: "quiet (yield s) (sleep tag ms s)"
    using tag pos by (auto simp: quiet_def sleep_def Let_def)
  have "idle (sleep tag ms s)"
    using y(1) by (simp add: idle_def sleep_def active_count_def Let_def)
  moreover have "counters_ok rl s \<longrightarrow> counters_ok rl (sleep tag ms s)"
    using y(4) tag by (auto simp: counters_ok_def sleep_def Let_def)
  moreover have "now (sleep tag ms s) = now s + timer_ms ms"
    using y(3) by (simp add: sleep_def Let_def)
  ultimately show ?thesis using quiet_trans [OF y(2) q] by blast
qed

lemma wait_global_entering:
  assumes "idle s \<or> held d s" and lim: "1 \<le> perDomainConcurrency rl" "1 \<le> globalConcurrency rl"
    and fuel: "2 \<le> fuel"
  shows "\<exists>s1. wait_global fuel rl s = Some s1 \<and> (idle s1 \<or> held d s1) \<and> quiet s s1
              \<and> (counters_ok rl s \<longrightarrow> counters_ok rl s1)"
proof -
  obtain n where f: "fuel = Suc (Suc n)"
    using fuel by (metis Suc_le_D numeral_2_eq_2 Suc_le_mono)
  show ?thesis
  proof (cases "globalActive s \<ge> globalConcurrency rl")
    case False
    then show ?thesis using assms(1) by (simp add: f quiet_refl)
  next
    case True
    let ?s1 = "sleep PollWait (Num 100) s"
    from sleep_entering [OF assms(1) lim, of PollWait "Num 100"]
    have s1: "idle ?s1" "quiet s ?s1" "counters_ok rl s \<longrightarrow> counters_ok rl ?s1" by blast+
    then have "\<not> globalActive ?s1 \<ge> globalConcurrency rl"
      using lim by (simp add: idle_def)
    then have "wait_global fuel rl s = Some ?s1"
      using True by (simp add: f)
    then show ?thesis using s1 by blast
  qed
qed

lemma wait_domain_entering:
  assumes "idle s \<or> held d s" and lim: "1 \<le> perDomainConcurrency rl" "1 \<le> globalConcurrency rl"
    and fuel: "2 \<le> fuel"
  shows "\<exists>s1. wait_domain fuel rl d s = Some s1 \<and> (idle s1 \<or> held d s1) \<and> quiet s s1
              \<and> (counters_ok rl s \<longrightarrow> counters_ok rl s1)"
proof -
  obtain n where f: "fuel = Suc (Suc n)"
    using fuel by (metis Suc_le_D numeral_2_eq_2 Suc_le_mono)
  show ?thesis
  proof (cases "canRequestDomain rl d s")
    case True
    then show ?thesis using assms(1) by (simp add: f quiet_refl)
  next
    case False
    let ?s1 = "sleep PollWait (Num 100) s"
    from sleep_entering [OF assms(1) lim, of PollWait "Num 100"]
    have s1: "idle ?s1" "quiet s ?s1" "counters_ok rl s \<longrightarrow> counters_ok rl ?s1" by blast+
    then have "canRequestDomain rl d ?s1"
      using lim by (simp add: idle_def canRequestDomain_def)
    then have "wait_domain fuel rl d s = Some ?s1"
      using False by (simp add: f)
    then show ?thesis using s1 by blast
  qed
qed

lemma enforceDelay_entering:
  assumes "idle s \<or> held d s" and lim: "1 \<le> perDomainConcurrency rl" "1 \<le> globalConcurrency rl"
  shows "idle (enforceDelay rl d s) \<and> quiet s (enforceDelay rl d s)
         \<and> (counters_ok rl s \<longrightarrow> counters_ok rl (enforceDelay rl d s))
         \<and> (\<forall>t. lastRequestTime s d = Some t \<and> t \<noteq> 0 \<and> t \<le> now s
                  \<and> requestDelay rl \<le> 2147483647 \<longrightarrow>
               requestDelay rl \<le> now (enforceDelay rl d s) - t)"
proof -
  note y = yield_entering [OF assms(1) lim]
  note sl = sleep_entering [OF assms(1) lim, of SpacingWait]
  show ?thesis
  proof (cases "lastRequestTime s d")
    case None
    then show ?thesis using y by (simp add: enforceDelay_def)
  next
    case (Some t)
    show ?thesis
    proof (cases "t = 0 \<or> \<not> now s - t < requestDelay rl")
      case True
      then have "enforceDelay rl d s = yield s"
        using Some by (auto simp: enforceDelay_def Let_def)
      then show ?thesis using y Some True by auto
    next
      case False
      let ?ms = "js_result (requestDelay rl - (now s - t))"
      from False have e: "enforceDelay rl d s = sleep SpacingWait ?ms s"
        using Some by (auto simp: enforceDelay_def Let_def)
      have "timer_ms ?ms = requestDelay rl - (now s - t)"
        if "t \<le> now s" "requestDelay rl \<le> 2147483647"
        using that False by (simp add: js_result_def)
      then have "now (sleep SpacingWait ?ms s) - t = requestDelay rl"
        if "t \<le> now s" "requestDelay rl \<le> 2147483647"
        using that sl [of ?ms] by simp
      then show ?thesis unfolding e using sl [of ?ms] Some by auto
    qed
  qed
qed

lemma admit_idle:
  assumes i: "idle s" and lim: "1 \<le> perDomainConcurrency rl" "1 \<le> globalConcurrency rl"
  shows "busy d (admit d s)"
    and "calls (admit d s) = calls s" and "retry_view (trace (admit d s)) = retry_view (trace s)"
    and "robotsCache (admit d s) = robotsCache s" and "fetches (admit d s) = fetches s"
    and "now (admit d s) = now s"
    and "counters_ok rl s \<Longrightarrow> counters_ok rl (admit d s)"
proof -
  have z: "or_default (domainActive s d') 0 = 0" for d'
    using i by (rule idle_count)
  show "busy d (admit d s)"
    using i z by (auto simp: busy_def idle_def admit_def snapshot_def active_count_def Let_def)
      (simp add: or_default_def)
  have w1: "within_limits rl (1, domainActive s)"
    unfolding within_limits_def using lim z by auto
  have w2: "within_limits rl (1, (domainActive s)(d \<mapsto> 1))"
    unfolding within_limits_def using lim z by (auto simp: or_default_def)
  show "counters_ok rl (admit d s)" if "counters_ok rl s"
    using that i z w1 w2 by (auto simp: counters_ok_def idle_def admit_def snapshot_def Let_def)
  show "calls (admit d s) = calls s" "retry_view (trace (admit d s)) = retry_view (trace s)"
    "robotsCache (admit d s) = robotsCache s" "fetches (admit d s) = fetches s"
    "now (admit d s) = now s"
    by (simp_all add: admit_def snapshot_def Let_def)
qed

lemma admit_spacing:
  assumes sp: "spacing_ok rl s"
    and gap: "admissions d (trace s) \<noteq> [] \<longrightarrow>
                requestDelay rl \<le> now s - last (admissions d (trace s))"
  shows "spacing_ok rl (admit d s)"
proof -
  have tr: "admissions d' (trace (admit d s)) =
              admissions d' (trace s) @ (if d' = d then [now s] else [])" for d'
    by (simp add: admit_def snapshot_def Let_def)
  have lt: "lastRequestTime (admit d s) = (lastRequestTime s)(d \<mapsto> now s)"
    and nw: "now (admit d s) = now s"
    by (simp_all add: admit_def snapshot_def Let_def)
  show ?thesis
    unfolding spacing_ok_def
  proof (intro conjI allI)
    show "0 < now (admit d s)" using sp by (simp add: nw spacing_ok_def)
  next
    fix d'
    from sp have old: "spaced (requestDelay rl) (admissions d' (trace s))"
      and lst: "admissions d' (trace s) \<noteq> [] \<Longrightarrow>
                  lastRequestTime s d' = Some (last (admissions d' (trace s)))
                  \<and> 0 < last (admissions d' (trace s))
                  \<and> last (admissions d' (trace s)) \<le> now s"
      and pos: "0 < now s"
      by (simp_all add: spacing_ok_def)
    show "spaced (requestDelay rl) (admissions d' (trace (admit d s)))"
    proof (cases "d' = d")
      case True
      have "admissions d (trace s) \<noteq> [] \<Longrightarrow> requestDelay rl \<le> now s - last (admissions d (trace s))"
        using gap by simp
      then show ?thesis using old True by (simp add: tr spaced_snoc)
    next
      case False
      then show ?thesis using old by (simp add: tr)
    qed
    show "admissions d' (trace (admit d s)) \<noteq> [] \<longrightarrow>
            lastRequestTime (admit d s) d' = Some (last (admissions d' (trace (admit d s))))
            \<and> 0 < last (admissions d' (trace (admit d s)))
            \<and> last (admissions d' (trace (admit d s))) \<le> now (admit d s)"
      using lst pos by (cases "d' = d") (auto simp: tr lt nw)
  qed
qed

lemma admission_entering:
  assumes en: "idle s \<or> held d s" and lim: "1 \<le> perDomainConcurrency rl" "1 \<le> globalConcurrency rl"
    and fuel: "2 \<le> fuel"
  shows "\<exists>s1. admission fuel rl d s = Some s1 \<and> busy d s1 \<and> calls s1 = calls s
              \<and> retry_view (trace s1) = retry_view (trace s)
              \<and> robotsCache s1 = robotsCache s \<and> fetches s1 = fetches s
              \<and> counter_history s1 = counter_history s @ [1, 1]
              \<and> (counters_ok rl s \<longrightarrow> counters_ok rl s1)
              \<and> (spacing_ok rl s \<and> requestDelay rl \<le> 2147483647 \<longrightarrow> spacing_ok rl s1)"
proof -
  from wait_global_entering [OF en lim fuel]
  obtain s1 where 1: "wait_global fuel rl s = Some s1" "idle s1 \<or> held d s1"
    "quiet s s1" "counters_ok rl s \<longrightarrow> counters_ok rl s1" by blast
  from wait_domain_entering [OF 1(2) lim fuel]
  obtain s2 where 2: "wait_domain fuel rl d s1 = Some s2" "idle s2 \<or> held d s2"
    "quiet s1 s2" "counters_ok rl s1 \<longrightarrow> counters_ok rl s2" by blast
  let ?s3 = "enforceDelay rl d s2"
  from enforceDelay_entering [OF 2(2) lim]
  have 3: "idle ?s3" "quiet s2 ?s3" "counters_ok rl s2 \<longrightarrow> counters_ok rl ?s3"
    "\<forall>t. lastRequestTime s2 d = Some t \<and> t \<noteq> 0 \<and> t \<le> now s2
           \<and> requestDelay rl \<le> 2147483647 \<longrightarrow> requestDelay rl \<le> now ?s3 - t"
    by blast+
  have q2: "quiet s s2" using 1(3) 2(3) quiet_trans by blast
  have q: "quiet s ?s3" using q2 3(2) quiet_trans by blast
  note a = admit_idle [OF 3(1) lim, of d]
  have sp: "spacing_ok rl (admit d ?s3)"
    if ok: "spacing_ok rl s" and small: "requestDelay rl \<le> 2147483647"
  proof -
    from spacing_ok_quiet [OF ok q2] have ok2: "spacing_ok rl s2" .
    from spacing_ok_quiet [OF ok q] have ok3: "spacing_ok rl ?s3" .
    have same: "admissions d (trace ?s3) = admissions d (trace s2)"
      using 3(2) by (simp add: quiet_def)
    have "requestDelay rl \<le> now ?s3 - last (admissions d (trace ?s3))"
      if ne: "admissions d (trace ?s3) \<noteq> []"
    proof -
      from ne same have ne2: "admissions d (trace s2) \<noteq> []" by simp
      with ok2 have "lastRequestTime s2 d = Some (last (admissions d (trace s2)))"
        "0 < last (admissions d (trace s2))" "last (admissions d (trace s2)) \<le> now s2"
        by (simp_all add: spacing_ok_def)
      with 3(4) small show ?thesis unfolding same by simp
    qed
    then show ?thesis using admit_spacing [OF ok3] by blast
  qed
  have ok: "counters_ok rl s \<longrightarrow> counters_ok rl (admit d ?s3)"
    using 1(4) 2(4) 3(3) a(7) by blast
  have "counter_history ?s3 = counter_history s"
    using wait_global_history [OF 1(1)] wait_domain_history [OF 2(1)]
    by (simp add: enforceDelay_history)
  then have h: "counter_history (admit d ?s3) = counter_history s @ [1, 1]"
    using 3(1) admit_history [of ?s3 d] by (simp add: idle_def)
  have "admission fuel rl d s = Some (admit d ?s3)"
    using 1(1) 2(1) by (simp add: admission_def approach_def)
  then show ?thesis using a(1-6) q sp ok h by (auto simp: quiet_def)
qed

lemma invoke_busy:
  assumes "busy d s"
  shows "busy d (snd (invoke fn s))
    \<and> calls (snd (invoke fn s)) = Suc (calls s)
    \<and> retry_view (trace (snd (invoke fn s))) = retry_view (trace s) @ [Invoke (calls s)]
    \<and> robotsCache (snd (invoke fn s)) = robotsCache s
    \<and> fetches (snd (invoke fn s)) = fetches s
    \<and> fst (invoke fn s) = fst (fn (calls s))
    \<and> (counters_ok rl s \<longrightarrow> counters_ok rl (snd (invoke fn s)))
    \<and> (spacing_ok rl s \<longrightarrow> spacing_ok rl (snd (invoke fn s)))"
  using assms
  by (auto simp: invoke_def busy_def counters_ok_def spacing_ok_def active_count_def
      intro: order_trans)

lemma backoff_busy:
  assumes b: "busy d s"
  shows "held d ((sleep BackoffWait ms s)\<lparr>pending := Some d\<rparr>)
    \<and> calls ((sleep BackoffWait ms s)\<lparr>pending := Some d\<rparr>) = calls s
    \<and> retry_view (trace ((sleep BackoffWait ms s)\<lparr>pending := Some d\<rparr>))
           = retry_view (trace s) @ [BackoffWait (timer_ms ms)]
    \<and> robotsCache ((sleep BackoffWait ms s)\<lparr>pending := Some d\<rparr>) = robotsCache s
    \<and> fetches ((sleep BackoffWait ms s)\<lparr>pending := Some d\<rparr>) = fetches s
    \<and> (counters_ok rl s \<longrightarrow> counters_ok rl ((sleep BackoffWait ms s)\<lparr>pending := Some d\<rparr>))
    \<and> (spacing_ok rl s \<longrightarrow> spacing_ok rl ((sleep BackoffWait ms s)\<lparr>pending := Some d\<rparr>))"
proof -
  from b have y: "yield s = s" by (simp add: yield_def busy_def)
  have pos: "0 \<le> timer_ms ms" by (cases ms) simp_all
  have "held d ((sleep BackoffWait ms s)\<lparr>pending := Some d\<rparr>)"
    using b by (simp add: held_def busy_def sleep_def y active_count_def Let_def)
  moreover have "counters_ok rl ((sleep BackoffWait ms s)\<lparr>pending := Some d\<rparr>)" if "counters_ok rl s"
    using that by (simp add: counters_ok_def sleep_def y Let_def)
  moreover have "spacing_ok rl ((sleep BackoffWait ms s)\<lparr>pending := Some d\<rparr>)" if "spacing_ok rl s"
    using that pos by (auto simp: spacing_ok_def sleep_def y Let_def intro: order_trans)
  moreover have "calls ((sleep BackoffWait ms s)\<lparr>pending := Some d\<rparr>) = calls s"
    "retry_view (trace ((sleep BackoffWait ms s)\<lparr>pending := Some d\<rparr>))
           = retry_view (trace s) @ [BackoffWait (timer_ms ms)]"
    "robotsCache ((sleep BackoffWait ms s)\<lparr>pending := Some d\<rparr>) = robotsCache s"
    "fetches ((sleep BackoffWait ms s)\<lparr>pending := Some d\<rparr>) = fetches s"
    by (simp_all add: sleep_def y Let_def)
  ultimately show ?thesis by blast
qed

lemma release_done:
  assumes b: "busy d s" and lim: "1 \<le> perDomainConcurrency rl" "1 \<le> globalConcurrency rl"
  shows "idle (release d s) \<and> calls (release d s) = calls s
         \<and> retry_view (trace (release d s)) = retry_view (trace s)
         \<and> robotsCache (release d s) = robotsCache s \<and> fetches (release d s) = fetches s
         \<and> (counters_ok rl s \<longrightarrow> counters_ok rl (release d s))
         \<and> (spacing_ok rl s \<longrightarrow> spacing_ok rl (release d s))"
proof -
  from b have p: "s\<lparr>pending := None\<rparr> = s" by (simp add: busy_def)
  from b have "held d s \<or> busy d s" by blast
  from release_busy [OF this lim] have r: "idle (release d s)"
    "quiet s (release d s)" "counters_ok rl s \<Longrightarrow> counters_ok rl (release d s)"
    unfolding p by blast+
  from spacing_ok_quiet [OF _ r(2)] r show ?thesis by (auto simp: quiet_def)
qed

subsection \<open>execute\<close>

declare execute.simps [simp del]

lemma execute_inv:
  assumes lim: "1 \<le> perDomainConcurrency rl" "1 \<le> globalConcurrency rl" and fuel: "2 \<le> fuel"
  shows "idle s \<or> held (RateLimiter_getDomain e url) s \<Longrightarrow>
     \<exists>r s'. execute fuel e rl url fn attempt s = Some (r, s') \<and> idle s'
            \<and> (counters_ok rl s \<longrightarrow> counters_ok rl s')
            \<and> (spacing_ok rl s \<and> requestDelay rl \<le> 2147483647 \<longrightarrow> spacing_ok rl s')
            \<and> robotsCache s' = robotsCache s \<and> fetches s' = fetches s
            \<and> calls s < calls s'
            \<and> counter_history s' =
                 counter_history s @ concat (replicate (calls s' - calls s) [1, 1, 0, 0])
            \<and> (case r of Inr v \<Rightarrow> \<exists>i. fst (fn i) = Resolved v
                        | Inl err \<Rightarrow> \<exists>i. fst (fn i) = Rejected err)"
proof (induction "nat (maxRetries rl - int attempt)" arbitrary: attempt s rule: less_induct)
  case less
  let ?d = "RateLimiter_getDomain e url"
  from admission_entering [OF less.prems(1) lim fuel]
  obtain s1 where a: "admission fuel rl ?d s = Some s1" "busy ?d s1"
    "robotsCache s1 = robotsCache s" "fetches s1 = fetches s"
    "counters_ok rl s \<longrightarrow> counters_ok rl s1"
    "spacing_ok rl s \<and> requestDelay rl \<le> 2147483647 \<longrightarrow> spacing_ok rl s1"
    "calls s1 = calls s" "counter_history s1 = counter_history s @ [1, 1]"
    by blast
  obtain r s2 where inv: "invoke fn s1 = (r, s2)" by (cases "invoke fn s1")
  from invoke_busy [OF a(2), of fn rl] inv
  have i: "busy ?d s2" "robotsCache s2 = robotsCache s1"
    "fetches s2 = fetches s1" "r = fst (fn (calls s1))"
    "counters_ok rl s1 \<longrightarrow> counters_ok rl s2" "spacing_ok rl s1 \<longrightarrow> spacing_ok rl s2"
    "calls s2 = Suc (calls s1)"
    by auto
  have h2: "counter_history s2 = counter_history s @ [1, 1]"
    using invoke_history [of fn s1] inv a(8) by simp
  from i(1) have p2: "pending s2 = None" "globalActive s2 = 1" by (simp_all add: busy_def)
  note rel = release_done [OF i(1) lim]
  have hrel: "counter_history (release ?d s2) = counter_history s @ concat (replicate 1 [1, 1, 0, 0])"
    using release_history [OF p2(1), of ?d] p2(2) h2 by simp
  have crel: "calls (release ?d s2) - calls s = 1" "calls s < calls (release ?d s2)"
    using rel i(7) a(7) by simp_all
  show ?case
  proof (cases r)
    case (Resolved v)
    then have "execute fuel e rl url fn attempt s = Some (Inr v, release ?d s2)"
      using a(1) inv by (simp add: execute.simps)
    moreover have "\<exists>i. fst (fn i) = Resolved v" using i(4) Resolved by metis
    ultimately show ?thesis using rel a(3-6) i(2,3,5,6) hrel crel by simp
  next
    case (Rejected err)
    have thrown: "\<exists>i. fst (fn i) = Rejected err" using i(4) Rejected by metis
    show ?thesis
    proof (cases "int attempt < maxRetries rl \<and> shouldRetry err")
      case False
      then have "execute fuel e rl url fn attempt s = Some (Inl err, release ?d s2)"
        using a(1) inv Rejected by (auto simp: execute.simps)
      then show ?thesis using rel a(3-6) i(2,3,5,6) thrown hrel crel by simp
    next
      case True
      let ?s3 = "(sleep BackoffWait (calculateBackoff rl attempt) s2)\<lparr>pending := Some ?d\<rparr>"
      have e: "execute fuel e rl url fn attempt s = execute fuel e rl url fn (Suc attempt) ?s3"
        using a(1) inv Rejected True by (simp add: execute.simps)
      from backoff_busy [OF i(1), of "calculateBackoff rl attempt" rl]
      have b: "held ?d ?s3" "calls ?s3 = calls s2" "robotsCache ?s3 = robotsCache s2"
        "fetches ?s3 = fetches s2" "counters_ok rl s2 \<longrightarrow> counters_ok rl ?s3"
        "spacing_ok rl s2 \<longrightarrow> spacing_ok rl ?s3"
        by blast+
      have h3: "counter_history ?s3 = counter_history s @ [1, 1, 0, 0]"
        using backoff_history [OF p2(1), where ms = "calculateBackoff rl attempt" and d = ?d] p2(2) h2
        by simp
      have c3: "calls ?s3 = Suc (calls s)" using b(2) i(7) a(7) by simp
      have "nat (maxRetries rl - int (Suc attempt)) < nat (maxRetries rl - int attempt)"
        using True by simp
      from less.hyps [OF this] b(1)
      obtain r' s' where x: "execute fuel e rl url fn (Suc attempt) ?s3 = Some (r', s')"
        "idle s'" "counters_ok rl ?s3 \<longrightarrow> counters_ok rl s'"
        "spacing_ok rl ?s3 \<and> requestDelay rl \<le> 2147483647 \<longrightarrow> spacing_ok rl s'"
        "robotsCache s' = robotsCache ?s3"
        "fetches s' = fetches ?s3"
        "calls ?s3 < calls s'"
        "counter_history s' = counter_history ?s3 @ concat (replicate (calls s' - calls ?s3) [1, 1, 0, 0])"
        "case r' of Inr v \<Rightarrow> \<exists>i. fst (fn i) = Resolved v | Inl err \<Rightarrow> \<exists>i. fst (fn i) = Rejected err"
        by blast
      have k: "calls s' - calls s = Suc (calls s' - calls ?s3)" "calls s < calls s'"
        using x(7) c3 by simp_all
      have "counter_history s' = counter_history s @ concat (replicate (calls s' - calls s) [1, 1, 0, 0])"
        unfolding k(1) x(8) h3 by simp
      then show ?thesis unfolding e using x(1-6,9) k(2) b(3-6) a(3-6) i(2,3,5,6) by simp
    qed
  qed
qed




subsection \<open>The policy checker leaves the limiter alone\<close>

lemma limiter_view_simps [simp]:
  "limiter_view [] = []"
  "limiter_view (ev # tr) = (if is_limiter_event ev then ev # limiter_view tr else limiter_view tr)"
  by (simp_all add: limiter_view_def)

lemma snapshots_limiter_view: "snapshots (limiter_view tr) = snapshots tr"
proof (induction tr)
  case (Cons ev tr)
  then show ?case by (cases ev) simp_all
qed simp

lemma admissions_limiter_view: "admissions d (limiter_view tr) = admissions d tr"
proof (induction tr)
  case (Cons ev tr)
  then show ?case by (cases ev) simp_all
qed simp

lemma policy_step_refl: "policy_step s s"
  by (simp add: policy_step_def)

lemma fetchRobotsTxt_step: "policy_step s (snd (fetchRobotsTxt e domain s))"
  by (simp add: fetchRobotsTxt_def policy_step_def Let_def split: prod.splits http_result.splits)

lemma getRobotsParser_step: "policy_step s (snd (getRobotsParser e domain s))"
  using fetchRobotsTxt_step [of s e domain]
  by (auto simp: getRobotsParser_def policy_step_def Let_def split: option.splits prod.splits sum.splits)

lemma isAllowed_step: "policy_step s (snd (isAllowed e url ua s))"
proof (cases "RobotsChecker_getDomain e url")
  case None
  then show ?thesis by (simp add: isAllowed_def policy_step_refl)
next
  case (Some domain)
  then show ?thesis
    using getRobotsParser_step [of s e domain]
    by (cases "getRobotsParser e domain s") (auto simp: isAllowed_def split: sum.splits)
qed

lemma checkUrl_step: "policy_step s (snd (checkUrl e url ua s))"
  using isAllowed_step [of s e url ua]
  by (cases "isAllowed e url ua s") (simp add: checkUrl_def)

lemma policy_step_idle: "policy_step s s1 \<Longrightarrow> idle s \<Longrightarrow> idle s1"
  by (simp add: policy_step_def idle_def active_count_def)

lemma policy_step_counters: "policy_step s s1 \<Longrightarrow> counters_ok rl s \<Longrightarrow> counters_ok rl s1"
  unfolding policy_step_def counters_ok_def by (metis snapshots_limiter_view)

lemma policy_step_spacing: "policy_step s s1 \<Longrightarrow> spacing_ok rl s \<Longrightarrow> spacing_ok rl s1"
  unfolding policy_step_def spacing_ok_def
  by (metis admissions_limiter_view order_less_le_trans order_trans)

lemma policy_step_history: "policy_step s s1 \<Longrightarrow> counter_history s1 = counter_history s"
  unfolding policy_step_def counter_history_def by (metis snapshots_limiter_view)

lemma checkUrl_allowed: "allowed (fst (checkUrl e url ua s)) = fst (isAllowed e url ua s)"
  by (cases "isAllowed e url ua s") (simp add: checkUrl_def)

lemma denied_reason:
  "\<not> truthy (allowed (fst (checkUrl e url ua s))) \<Longrightarrow>
   reason (fst (checkUrl e url ua s)) = ''Disallowed by robots.txt''"
  by (cases "isAllowed e url ua s") (simp add: checkUrl_def)

subsection \<open>scrapeUrl and scrapeUrls\<close>

lemma page_body_url: "o_url (page_body url p) = url"
  by (simp add: page_body_def error_outcome_def skipped_outcome_def
      split: option.splits sum.splits)

lemma page_body_status: "status (page_body url p) \<in> {''success'', ''skipped'', ''error''}"
  by (simp add: page_body_def error_outcome_def skipped_outcome_def
      split: option.splits sum.splits)

lemma page_fn_url:
  "fst (page_fn e url i) = Resolved v \<Longrightarrow>
   o_url v = url \<and> status v \<in> {''success'', ''skipped'', ''error''}"
  using page_body_status [of url "browser e i url"]
  by (auto simp: page_fn_def Let_def page_body_url split: option.splits)

lemma scrapeUrl_total:
  assumes lim: "1 \<le> perDomainConcurrency rl" "1 \<le> globalConcurrency rl" and fuel: "2 \<le> fuel"
    and i: "idle s"
  shows "\<exists>r s'. scrapeUrl fuel e rl url s = Some (Inr r, s') \<and> o_url r = url
            \<and> status r \<in> {''success'', ''skipped'', ''error''} \<and> idle s'
            \<and> (counters_ok rl s \<longrightarrow> counters_ok rl s')
            \<and> (spacing_ok rl s \<and> requestDelay rl \<le> 2147483647 \<longrightarrow> spacing_ok rl s')
            \<and> calls s \<le> calls s'
            \<and> counter_history s' =
                 counter_history s @ concat (replicate (calls s' - calls s) [1, 1, 0, 0])"
proof -
  obtain c s1 where c: "checkUrl e url ''*'' s = (c, s1)" by (cases "checkUrl e url ''*'' s")
  have st: "policy_step s s1" using checkUrl_step [of s e url "''*''"] c by simp
  note i1 = policy_step_idle [OF st i]
  note inv1 = policy_step_counters [OF st] policy_step_spacing [OF st]
  have h1: "counter_history s1 = counter_history s" "calls s1 = calls s"
    using policy_step_history [OF st] st by (simp_all add: policy_step_def)
  show ?thesis
  proof (cases "truthy (allowed c)")
    case False
    then have "scrapeUrl fuel e rl url s = Some (Inr (skipped_outcome url (reason c)), s1)"
      using c by (simp add: scrapeUrl_def)
    then show ?thesis using i1 inv1 h1 by (auto simp: skipped_outcome_def)
  next
    case True
    from i1 have "idle s1 \<or> held (RateLimiter_getDomain e url) s1" by blast
    from execute_inv [OF lim fuel this, of "page_fn e url" 0]
    obtain r s' where x: "execute fuel e rl url (page_fn e url) 0 s1 = Some (r, s')" "idle s'"
      "counters_ok rl s1 \<longrightarrow> counters_ok rl s'"
      "spacing_ok rl s1 \<and> requestDelay rl \<le> 2147483647 \<longrightarrow> spacing_ok rl s'"
      "case r of Inr v \<Rightarrow> \<exists>i. fst (page_fn e url i) = Resolved v
               | Inl err \<Rightarrow> \<exists>i. fst (page_fn e url i) = Rejected err"
      "calls s1 < calls s'"
      "counter_history s' = counter_history s1 @ concat (replicate (calls s' - calls s1) [1, 1, 0, 0])"
      by blast
    have rest: "idle s'" "counters_ok rl s \<longrightarrow> counters_ok rl s'"
      "spacing_ok rl s \<and> requestDelay rl \<le> 2147483647 \<longrightarrow> spacing_ok rl s'" "calls s \<le> calls s'"
      "counter_history s' = counter_history s @ concat (replicate (calls s' - calls s) [1, 1, 0, 0])"
      using x(2,3,4,6,7) inv1 h1 by auto
    show ?thesis
    proof (cases r)
      case (Inl err)
      then have "scrapeUrl fuel e rl url s = Some (Inr (error_outcome url (message err)), s')"
        using c True x(1) by (simp add: scrapeUrl_def)
      then show ?thesis using rest by (simp add: error_outcome_def)
    next
      case (Inr v)
      then have "scrapeUrl fuel e rl url s = Some (Inr v, s')"
        using c True x(1) by (simp add: scrapeUrl_def)
      moreover have "o_url v = url \<and> status v \<in> {''success'', ''skipped'', ''error''}"
        using x(5) Inr page_fn_url by auto
      ultimately show ?thesis using rest by simp
    qed
  qed
qed

lemma scrape_loop_total:
  assumes lim: "1 \<le> perDomainConcurrency rl" "1 \<le> globalConcurrency rl" and fuel: "2 \<le> fuel"
  shows "idle s \<Longrightarrow>
     \<exists>rs s'. scrape_loop fuel e rl urls results s = Some (results @ rs, s') \<and> map o_url rs = urls
            \<and> (\<forall>r \<in> set rs. status r \<in> {''success'', ''skipped'', ''error''})
            \<and> idle s' \<and> (counters_ok rl s \<longrightarrow> counters_ok rl s')
            \<and> (spacing_ok rl s \<and> requestDelay rl \<le> 2147483647 \<longrightarrow> spacing_ok rl s')
            \<and> calls s \<le> calls s'
            \<and> counter_history s' =
                 counter_history s @ concat (replicate (calls s' - calls s) [1, 1, 0, 0])"
proof (induction urls arbitrary: results s)
  case Nil
  then show ?case by simp
next
  case (Cons url urls)
  from scrapeUrl_total [OF lim fuel Cons.prems, of e url]
  obtain r s1 where 1: "scrapeUrl fuel e rl url s = Some (Inr r, s1)" "o_url r = url" "idle s1"
    "counters_ok rl s \<longrightarrow> counters_ok rl s1"
    "spacing_ok rl s \<and> requestDelay rl \<le> 2147483647 \<longrightarrow> spacing_ok rl s1"
    "calls s \<le> calls s1"
    "counter_history s1 = counter_history s @ concat (replicate (calls s1 - calls s) [1, 1, 0, 0])"
    "status r \<in> {''success'', ''skipped'', ''error''}"
    by blast
  from Cons.IH [OF 1(3), of "results @ [r]"]
  obtain rs s' where 2: "scrape_loop fuel e rl urls (results @ [r]) s1 = Some ((results @ [r]) @ rs, s')"
    "map o_url rs = urls" "idle s'" "counters_ok rl s1 \<longrightarrow> counters_ok rl s'"
    "spacing_ok rl s1 \<and> requestDelay rl \<le> 2147483647 \<longrightarrow> spacing_ok rl s'"
    "calls s1 \<le> calls s'"
    "counter_history s' = counter_history s1 @ concat (replicate (calls s' - calls s1) [1, 1, 0, 0])"
    "\<forall>r \<in> set rs. status r \<in> {''success'', ''skipped'', ''error''}"
    by blast
  have "scrape_loop fuel e rl (url # urls) results s = Some (results @ (r # rs), s')"
    using 1(1) 2(1) by simp
  moreover have "map o_url (r # rs) = url # urls" using 1(2) 2(2) by simp
  moreover have "\<forall>x \<in> set (r # rs). status x \<in> {''success'', ''skipped'', ''error''}"
    using 1(8) 2(8) by simp
  moreover have "counters_ok rl s \<longrightarrow> counters_ok rl s'" using 1(4) 2(4) by blast
  moreover have "spacing_ok rl s \<and> requestDelay rl \<le> 2147483647 \<longrightarrow> spacing_ok rl s'"
    using 1(5) 2(5) by blast
  moreover have "calls s \<le> calls s'" using 1(6) 2(6) by simp
  moreover have "counter_history s' =
      counter_history s @ concat (replicate (calls s' - calls s) [1, 1, 0, 0])"
  proof -
    have "calls s' - calls s = (calls s1 - calls s) + (calls s' - calls s1)"
      using 1(6) 2(6) by simp
    then show ?thesis unfolding 2(7) 1(7) by (simp add: replicate_add)
  qed
  ultimately show ?case using 2(3) by (intro exI [of _ "r # rs"] exI [of _ s']) simp
qed





subsection \<open>The limiter never reads the policy cache\<close>

lemma release_cache: "release d (s\<lparr>robotsCache := c\<rparr>) = (release d s)\<lparr>robotsCache := c\<rparr>"
  by (simp add: release_def snapshot_def Let_def)

lemma yield_cache: "yield (s\<lparr>robotsCache := c\<rparr>) = (yield s)\<lparr>robotsCache := c\<rparr>"
  by (simp add: yield_def release_def snapshot_def Let_def split: option.splits)

lemma sleep_cache: "sleep tag ms (s\<lparr>robotsCache := c\<rparr>) = (sleep tag ms s)\<lparr>robotsCache := c\<rparr>"
  by (simp add: sleep_def yield_cache Let_def)

lemma enforceDelay_cache:
  "enforceDelay rl d (s\<lparr>robotsCache := c\<rparr>) = (enforceDelay rl d s)\<lparr>robotsCache := c\<rparr>"
  by (simp add: enforceDelay_def yield_cache sleep_cache Let_def split: option.splits)

lemma wait_global_cache:
  "wait_global n rl (s\<lparr>robotsCache := c\<rparr>) = map_option (\<lambda>s'. s'\<lparr>robotsCache := c\<rparr>) (wait_global n rl s)"
  by (induction n rl s rule: wait_global.induct) (simp_all add: sleep_cache)

lemma wait_domain_cache:
  "wait_domain n rl d (s\<lparr>robotsCache := c\<rparr>) = map_option (\<lambda>s'. s'\<lparr>robotsCache := c\<rparr>) (wait_domain n rl d s)"
  by (induction n rl d s rule: wait_domain.induct)
     (simp_all add: sleep_cache canRequestDomain_def active_count_def)

lemma admit_cache: "admit d (s\<lparr>robotsCache := c\<rparr>) = (admit d s)\<lparr>robotsCache := c\<rparr>"
  by (simp add: admit_def snapshot_def Let_def)

lemma admission_cache:
  "admission n rl d (s\<lparr>robotsCache := c\<rparr>) = map_option (\<lambda>s'. s'\<lparr>robotsCache := c\<rparr>) (admission n rl d s)"
  by (simp add: admission_def approach_def wait_global_cache wait_domain_cache enforceDelay_cache
      admit_cache split: option.splits)

lemma invoke_cache:
  "invoke fn (s\<lparr>robotsCache := c\<rparr>) = (fst (invoke fn s), (snd (invoke fn s))\<lparr>robotsCache := c\<rparr>)"
  by (simp add: invoke_def)

lemma execute_cache:
  "execute fuel e rl url fn attempt (s\<lparr>robotsCache := c\<rparr>)
     = map_option (\<lambda>(r, s'). (r, s'\<lparr>robotsCache := c\<rparr>)) (execute fuel e rl url fn attempt s)"
proof (induction "nat (maxRetries rl - int attempt)" arbitrary: attempt s rule: less_induct)
  case less
  let ?d = "RateLimiter_getDomain e url"
  show ?case
  proof (cases "admission fuel rl ?d s")
    case None
    then show ?thesis by (simp add: execute.simps [of _ _ _ _ _ attempt] admission_cache)
  next
    case (Some s1)
    obtain r s2 where inv: "invoke fn s1 = (r, s2)" by (cases "invoke fn s1")
    then have inv': "invoke fn (s1\<lparr>robotsCache := c\<rparr>) = (r, s2\<lparr>robotsCache := c\<rparr>)"
      by (simp add: invoke_cache)
    show ?thesis
    proof (cases r)
      case (Resolved v)
      then show ?thesis
        using Some inv inv'
        by (simp add: execute.simps [of _ _ _ _ _ attempt] admission_cache release_cache)
    next
      case (Rejected err)
      show ?thesis
      proof (cases "int attempt < maxRetries rl \<and> shouldRetry err")
        case False
        then show ?thesis
          using Some inv inv' Rejected
          by (auto simp: execute.simps [of _ _ _ _ _ attempt] admission_cache release_cache)
      next
        case True
        let ?s3 = "(sleep BackoffWait (calculateBackoff rl attempt) s2)\<lparr>pending := Some ?d\<rparr>"
        have m: "nat (maxRetries rl - int (Suc attempt)) < nat (maxRetries rl - int attempt)"
          using True by simp
        have sw: "(sleep BackoffWait (calculateBackoff rl attempt) (s2\<lparr>robotsCache := c\<rparr>))\<lparr>pending := Some ?d\<rparr>
                  = ?s3\<lparr>robotsCache := c\<rparr>"
          by (simp add: sleep_cache)
        have "execute fuel e rl url fn attempt (s\<lparr>robotsCache := c\<rparr>)
                = execute fuel e rl url fn (Suc attempt) (?s3\<lparr>robotsCache := c\<rparr>)"
          using Some inv' Rejected True
          by (simp add: execute.simps [of _ _ _ _ _ attempt] admission_cache sw)
        moreover have "execute fuel e rl url fn attempt s = execute fuel e rl url fn (Suc attempt) ?s3"
          using Some inv Rejected True by (simp add: execute.simps [of _ _ _ _ _ attempt])
        ultimately show ?thesis using less.hyps [OF m, of ?s3] by simp
      qed
    qed
  qed
qed

subsection \<open>A limit below one\<close>

lemma wait_global_stuck:
  "pending s = None \<Longrightarrow> globalConcurrency rl \<le> globalActive s \<Longrightarrow> wait_global n rl s = None"
proof (induction n arbitrary: s)
  case (Suc n)
  have "pending (sleep PollWait (Num 100) s) = None"
    "globalActive (sleep PollWait (Num 100) s) = globalActive s"
    using Suc.prems(1) by (simp_all add: sleep_def yield_def Let_def)
  with Suc show ?case by simp
qed simp

lemma execute_stuck:
  "pending s = None \<Longrightarrow> globalConcurrency rl \<le> globalActive s \<Longrightarrow>
   execute n e rl url fn attempt s = None"
  by (simp add: execute.simps [of _ _ _ _ _ attempt] admission_def approach_def wait_global_stuck)

subsection \<open>The policy cache\<close>

lemma getRobotsParser_hit:
  "robotsCache s domain = Some p \<Longrightarrow> getRobotsParser e domain s = (Inr p, s)"
  by (simp add: getRobotsParser_def)

lemma fetchRobotsTxt_world:
  "snd (fetchRobotsTxt e domain s) =
     s\<lparr>fetches := Suc (fetches s),
       now := now s + int (snd (axios_get e (fetches s) (domain @ ''/robots.txt''))),
       trace := trace s @ [RobotsGet (domain @ ''/robots.txt'')]\<rparr>"
  by (simp add: fetchRobotsTxt_def Let_def split: prod.splits http_result.splits)



lemma fetchRobotsTxt_degraded:
  "degraded (fst (axios_get e (fetches s) (domain @ ''/robots.txt''))) \<Longrightarrow>
   fst (fetchRobotsTxt e domain s) = Text []"
  by (auto simp: fetchRobotsTxt_def degraded_def Let_def split: prod.splits http_result.splits)

lemma getRobotsParser_miss_degraded:
  assumes "robotsCache s domain = None"
    and "degraded (fst (axios_get e (fetches s) (domain @ ''/robots.txt'')))"
    and "robotsParser e (domain @ ''/robots.txt'') (Text []) = Inr p"
  shows "fst (getRobotsParser e domain s) = Inr p"
    and "robotsCache (snd (getRobotsParser e domain s)) domain = Some p"
  using assms fetchRobotsTxt_degraded [OF assms(2)]
  by (auto simp: getRobotsParser_def Let_def split: prod.splits)



lemma isAllowed_cached:
  "RobotsChecker_getDomain e url = Some domain \<Longrightarrow> robotsCache s domain = Some p \<Longrightarrow>
   p_isAllowed p url ua = Inr a \<Longrightarrow> isAllowed e url ua s = (a, s)"
  by (simp add: isAllowed_def getRobotsParser_hit)

lemma isAllowed_throw:
  "RobotsChecker_getDomain e url = Some domain \<Longrightarrow>
   fst (getRobotsParser e domain s) = Inl err \<Longrightarrow>
   fst (isAllowed e url ua s) = Some False"
  by (cases "getRobotsParser e domain s") (auto simp: isAllowed_def split: sum.splits)

lemma isAllowed_parser_throw:
  "RobotsChecker_getDomain e url = Some domain \<Longrightarrow>
   fst (getRobotsParser e domain s) = Inr parser \<Longrightarrow>
   p_isAllowed parser url ua = Inl err \<Longrightarrow>
   fst (isAllowed e url ua s) = Some False"
  by (cases "getRobotsParser e domain s") (auto simp: isAllowed_def split: sum.splits)

subsection \<open>The stand-ins\<close>

lemma stub_limits:
  "1 \<le> perDomainConcurrency (RateLimiter_new no_options)"
  "1 \<le> globalConcurrency (RateLimiter_new no_options)"
  "maxRetries (RateLimiter_new no_options) = 3"
  "requestDelay (RateLimiter_new no_options) = 2000"
  "backoffBase (RateLimiter_new no_options) = 2"
  by (simp_all add: RateLimiter_new_def no_options_def or_default_def)

lemma fresh_idle: "idle (fresh_world t)"
  by (simp add: idle_def fresh_world_def active_count_def or_default_def)

lemma fresh_counters_ok: "counters_ok rl (fresh_world t)"
  by (simp add: counters_ok_def fresh_world_def)

lemma fresh_spacing_ok: "0 < t \<Longrightarrow> spacing_ok rl (fresh_world t)"
  by (simp add: spacing_ok_def fresh_world_def)



subsection \<open>Runs whose requests do not overlap\<close>

text \<open>
  One \<^verbatim>\<open>execute\<close> call with its retries, and a \<^verbatim>\<open>scrapeUrls\<close> batch, started with no
  request in flight: the counters stay within the limits, the global count reads 1, 1,
  0, 0 around every call of the unit of work, and every count is back at zero at the
  end.
\<close>

lemma sequential_counts:
  assumes "idle s" and "counters_ok rl s"
    and "1 \<le> perDomainConcurrency rl" and "1 \<le> globalConcurrency rl" and "2 \<le> fuel"
  shows "(\<exists>r s'. execute fuel e rl url fn 0 s = Some (r, s') \<and> idle s'
                \<and> (\<forall>c \<in> set (snapshots (trace s')). within_limits rl c)
                \<and> map fst (snapshots (trace s')) =
                     map fst (snapshots (trace s))
                     @ concat (replicate (calls s' - calls s) [1, 1, 0, 0]))
       \<and> (\<exists>rs s'. scrapeUrls fuel e rl urls s = Some (rs, s') \<and> idle s'
                \<and> (\<forall>c \<in> set (snapshots (trace s')). within_limits rl c)
                \<and> map fst (snapshots (trace s')) =
                     map fst (snapshots (trace s))
                     @ concat (replicate (calls s' - calls s) [1, 1, 0, 0]))"
proof -
  have h: "counter_history w = map fst (snapshots (trace w))" if "idle w" for w
    using that by (simp add: counter_history_def idle_def)
  from assms(1) have en: "idle s \<or> held (RateLimiter_getDomain e url) s" by blast
  from execute_inv [OF assms(3,4,5) en, of fn 0] assms(2)
  obtain r s' where x: "execute fuel e rl url fn 0 s = Some (r, s')" "idle s'" "counters_ok rl s'"
    "counter_history s' = counter_history s @ concat (replicate (calls s' - calls s) [1, 1, 0, 0])"
    by blast
  from scrape_loop_total [OF assms(3,4,5,1), of e urls "[]"] assms(2)
  obtain rs s'' where y: "scrapeUrls fuel e rl urls s = Some (rs, s'')" "idle s''"
    "counters_ok rl s''"
    "counter_history s'' = counter_history s @ concat (replicate (calls s'' - calls s) [1, 1, 0, 0])"
    unfolding scrapeUrls_def by auto
  have "\<exists>r s'. execute fuel e rl url fn 0 s = Some (r, s') \<and> idle s'
                \<and> (\<forall>c \<in> set (snapshots (trace s')). within_limits rl c)
                \<and> map fst (snapshots (trace s')) =
                     map fst (snapshots (trace s))
                     @ concat (replicate (calls s' - calls s) [1, 1, 0, 0])"
    using x h [OF x(2)] h [OF assms(1)] by (auto simp: counters_ok_def)
  moreover have "\<exists>rs s'. scrapeUrls fuel e rl urls s = Some (rs, s') \<and> idle s'
                \<and> (\<forall>c \<in> set (snapshots (trace s')). within_limits rl c)
                \<and> map fst (snapshots (trace s')) =
                     map fst (snapshots (trace s))
                     @ concat (replicate (calls s' - calls s) [1, 1, 0, 0])"
    using y h [OF y(2)] h [OF assms(1)] by (auto simp: counters_ok_def)
  ultimately show ?thesis by blast
qed

subsection \<open>A policy fetch that fails\<close>

text \<open>
  On a cache miss, when the fetch of \<^verbatim>\<open>robots.txt\<close> answers a status of 400 or more or
  fails, \<^verbatim>\<open>fetchRobotsTxt\<close> answers the empty text, the policy built from it is cached,
  and \<^verbatim>\<open>isAllowed\<close> answers what that policy answers, for later URLs of the origin from
  the cache.
\<close>

lemma degraded_fetch_cached:
  assumes "RobotsChecker_getDomain e url = Some domain"
    and "robotsCache s domain = None"
    and "degraded (fst (axios_get e (fetches s) (domain @ ''/robots.txt'')))"
    and "robotsParser e (domain @ ''/robots.txt'') (Text []) = Inr p"
  shows "fst (fetchRobotsTxt e domain s) = Text []
         \<and> robotsCache (snd (isAllowed e url ua s)) domain = Some p
         \<and> fetches (snd (isAllowed e url ua s)) = fetches s + 1
         \<and> (\<forall>a. p_isAllowed p url ua = Inr a \<longrightarrow> fst (isAllowed e url ua s) = a)
         \<and> (\<forall>u a r. RobotsChecker_getDomain e u = Some domain \<and> p_isAllowed p u a = Inr r \<longrightarrow>
               isAllowed e u a (snd (isAllowed e url ua s)) = (r, snd (isAllowed e url ua s)))"
proof -
  obtain s1 where g: "getRobotsParser e domain s = (Inr p, s1)" and c: "robotsCache s1 domain = Some p"
    using getRobotsParser_miss_degraded [OF assms(2,3,4)]
    by (cases "getRobotsParser e domain s") auto
  have f: "fetches s1 = fetches s + 1"
    using g assms(2) fetchRobotsTxt_world [of e domain s]
    by (auto simp: getRobotsParser_def Let_def split: prod.splits sum.splits)
  have s1: "snd (isAllowed e url ua s) = s1"
    using assms(1) g by (simp add: isAllowed_def split: sum.splits)
  have here: "fst (isAllowed e url ua s) = a" if "p_isAllowed p url ua = Inr a" for a
    using assms(1) g that by (simp add: isAllowed_def)
  have later: "isAllowed e u a s1 = (r, s1)"
    if "RobotsChecker_getDomain e u = Some domain" "p_isAllowed p u a = Inr r" for u a r
    using that c isAllowed_cached by blast
  show ?thesis
    unfolding s1 using fetchRobotsTxt_degraded [OF assms(3)] c f here later by simp
qed

section \<open>The claims\<close>

subsection \<open>Retry\<close>




subsection \<open>Throttle\<close>

text \<open>
  C2, as amended. For requests that do not overlap (one \<^verbatim>\<open>execute\<close> call with its
  retries, or a \<^verbatim>\<open>scrapeUrls\<close> batch, started with no request in flight and with no
  other call made meanwhile), under limits of at least one, a clock past zero and a
  \<^verbatim>\<open>requestDelay\<close> of at most 2147483647 ms, every request to a domain is admitted only
  once \<^verbatim>\<open>requestDelay\<close> milliseconds have passed since the start of the previous
  request to that domain: the recorded start times of each domain are at least
  \<^verbatim>\<open>requestDelay\<close> apart. The limiter never reads the policy cache, so a crawl-delay
  in the cached policy changes nothing in what \<^verbatim>\<open>execute\<close> does.
\<close>

theorem spacing_enforced:
  assumes "idle s" and "spacing_ok rl s" and "requestDelay rl \<le> 2147483647"
    and "1 \<le> perDomainConcurrency rl" and "1 \<le> globalConcurrency rl" and "2 \<le> fuel"
  shows "(\<exists>r s'. execute fuel e rl url fn 0 s = Some (r, s') \<and> spacing_ok rl s'
                \<and> (\<forall>d. spaced (requestDelay rl) (admissions d (trace s'))))
       \<and> (\<exists>rs s'. scrapeUrls fuel e rl urls s = Some (rs, s') \<and> spacing_ok rl s'
                \<and> (\<forall>d. spaced (requestDelay rl) (admissions d (trace s'))))
       \<and> (\<forall>c. execute fuel e rl url fn 0 (s\<lparr>robotsCache := c\<rparr>)
                = map_option (\<lambda>(r, s'). (r, s'\<lparr>robotsCache := c\<rparr>))
                    (execute fuel e rl url fn 0 s))"
proof -
  from assms(1) have en: "idle s \<or> held (RateLimiter_getDomain e url) s" by blast
  from execute_inv [OF assms(4,5,6) en, of fn 0] assms(2,3)
  obtain r s' where x: "execute fuel e rl url fn 0 s = Some (r, s')" "spacing_ok rl s'"
    by blast
  from scrape_loop_total [OF assms(4,5,6,1), of e urls "[]"] assms(2,3)
  obtain rs s'' where y: "scrapeUrls fuel e rl urls s = Some (rs, s'')" "spacing_ok rl s''"
    unfolding scrapeUrls_def by auto
  from x(2) y(2) have "\<forall>d. spaced (requestDelay rl) (admissions d (trace s'))"
    "\<forall>d. spaced (requestDelay rl) (admissions d (trace s''))"
    by (simp_all add: spacing_ok_def)
  with x y show ?thesis using execute_cache by blast
qed

theorem spacing_enforced_witness:
  "idle (fresh_world 1000) \<and> spacing_ok (RateLimiter_new no_options) (fresh_world 1000)
   \<and> requestDelay (RateLimiter_new no_options) \<le> 2147483647
   \<and> 1 \<le> perDomainConcurrency (RateLimiter_new no_options)
   \<and> 1 \<le> globalConcurrency (RateLimiter_new no_options)
   \<and> (\<exists>rs s'. scrapeUrls 2 stub_env (RateLimiter_new no_options)
                  [''https://a.test/x'', ''https://a.test/y''] (fresh_world 1000) = Some (rs, s')
          \<and> spaced 2000 (admissions ''a.test'' (trace s')))"
proof -
  have sp: "spacing_ok (RateLimiter_new no_options) (fresh_world 1000)"
    by (rule fresh_spacing_ok) simp
  have small: "requestDelay (RateLimiter_new no_options) \<le> 2147483647"
    by (simp add: stub_limits)
  from spacing_enforced [OF fresh_idle [of 1000] sp small stub_limits(1,2) order_refl,
      where e = stub_env and url = "''https://a.test/x''" and fn = flaky_then_ok
        and urls = "[''https://a.test/x'', ''https://a.test/y'']"]
  have "\<exists>rs s'. scrapeUrls 2 stub_env (RateLimiter_new no_options)
                  [''https://a.test/x'', ''https://a.test/y''] (fresh_world 1000) = Some (rs, s')
          \<and> spaced 2000 (admissions ''a.test'' (trace s'))"
    by (auto simp: stub_limits)
  then show ?thesis using fresh_idle sp small stub_limits(1,2) by blast
qed

text \<open>
  C2 as stated fails in three ways. The cached policy of \<^verbatim>\<open>https://a.test\<close> asks for a
  crawl delay of 10000 ms, the configured spacing is 2000 ms, and the second request to
  that host starts 2000 ms after the first. Two calls of \<^verbatim>\<open>execute\<close> for that host
  made in one turn on a fresh limiter are both admitted at the same millisecond. And
  with a \<^verbatim>\<open>requestDelay\<close> of 3000000000 ms the spacing timer runs one millisecond, so
  the second request of a batch starts 501 ms after the first.
\<close>

theorem crawl_delay_counterexample:
  "(case scrapeUrls 2 stub_env (RateLimiter_new no_options)
          [''https://a.test/x'', ''https://a.test/y''] (fresh_world 1000) of
      None \<Rightarrow> False
    | Some (rs, s') \<Rightarrow>
        fst (getCrawlDelay stub_env ''https://a.test'' ''*'' s') = 10000
        \<and> requestDelay (RateLimiter_new no_options) = 2000
        \<and> admissions ''a.test'' (trace s') = [1030, 3030]
        \<and> \<not> spaced 10000 (admissions ''a.test'' (trace s')))
   \<and> (case overlapping_calls 2 stub_env (RateLimiter_new no_options)
            ''https://a.test/x'' ''https://a.test/y'' (fresh_world 1000) of
        None \<Rightarrow> False
      | Some s' \<Rightarrow>
          admissions ''a.test'' (trace s') = [1000, 1000]
          \<and> \<not> spaced 2000 (admissions ''a.test'' (trace s')))
   \<and> (case scrapeUrls 2 stub_env
            (RateLimiter_new (no_options\<lparr>opt_requestDelay := Some 3000000000\<rparr>))
            [''https://a.test/x'', ''https://a.test/y''] (fresh_world 1000) of
        None \<Rightarrow> False
      | Some (rs, s') \<Rightarrow>
          requestDelay (RateLimiter_new (no_options\<lparr>opt_requestDelay := Some 3000000000\<rparr>))
            = 3000000000
          \<and> admissions ''a.test'' (trace s') = [1030, 1531])"
  by code_simp

text \<open>
  C3 fails on the code when two calls of \<^verbatim>\<open>execute\<close> overlap. Both calls pass the two
  loops under the comments \<^verbatim>\<open>Wait if global concurrency limit reached\<close> and
  \<^verbatim>\<open>Wait if domain concurrency limit reached\<close> before either has incremented a
  counter, because \<^verbatim>\<open>await this.enforceDelay(domain)\<close> stands between the checks and
  the increments. With the default per-domain limit of 1, two calls for one host made
  in one turn on a fresh limiter bring that host's count to 2; with a global limit of
  1, two calls for two hosts bring the global count to 2.
\<close>

theorem overlapping_calls_exceed_limits:
  "perDomainConcurrency (RateLimiter_new no_options) = 1
   \<and> (case overlapping_calls 2 stub_env (RateLimiter_new no_options)
            ''https://a.test/x'' ''https://a.test/y'' (fresh_world 1000) of
        None \<Rightarrow> False
      | Some s' \<Rightarrow>
          active_count s' ''a.test'' = 2
          \<and> map (\<lambda>c. or_default (snd c ''a.test'') 0) (snapshots (trace s')) = [0, 1, 1, 2])
   \<and> globalConcurrency (RateLimiter_new (no_options\<lparr>opt_concurrency := Some 1\<rparr>)) = 1
   \<and> (case overlapping_calls 2 stub_env (RateLimiter_new (no_options\<lparr>opt_concurrency := Some 1\<rparr>))
            ''https://a.test/x'' ''https://b.test/x'' (fresh_world 1000) of
        None \<Rightarrow> False
      | Some s' \<Rightarrow>
          globalActive s' = 2
          \<and> map fst (snapshots (trace s')) = [1, 1, 2, 2])"
  by code_simp

subsection \<open>Scheduler\<close>



text \<open>
  C5. When \<^verbatim>\<open>checkUrl\<close> does not allow a URL, \<^verbatim>\<open>scrapeUrl\<close> returns the \<^verbatim>\<open>skipped\<close>
  outcome with the reason of the check, and the world is the one the check left: the
  page closure was not called, the counters and the stored request times are
  untouched, and the limiter recorded nothing.
\<close>

theorem denied_short_circuit:
  assumes "\<not> truthy (allowed (fst (checkUrl e url ''*'' s)))"
  shows "scrapeUrl fuel e rl url s
           = Some (Inr \<lparr> o_url = url, status = ''skipped'',
                         o_reason = reason (fst (checkUrl e url ''*'' s)), data = None \<rparr>,
                   snd (checkUrl e url ''*'' s))
         \<and> reason (fst (checkUrl e url ''*'' s)) = ''Disallowed by robots.txt''
         \<and> calls (snd (checkUrl e url ''*'' s)) = calls s
         \<and> globalActive (snd (checkUrl e url ''*'' s)) = globalActive s
         \<and> domainActive (snd (checkUrl e url ''*'' s)) = domainActive s
         \<and> lastRequestTime (snd (checkUrl e url ''*'' s)) = lastRequestTime s
         \<and> limiter_view (trace (snd (checkUrl e url ''*'' s))) = limiter_view (trace s)"
proof -
  have "scrapeUrl fuel e rl url s
           = Some (Inr \<lparr> o_url = url, status = ''skipped'',
                         o_reason = reason (fst (checkUrl e url ''*'' s)), data = None \<rparr>,
                   snd (checkUrl e url ''*'' s))"
    using assms
    by (cases "checkUrl e url ''*'' s") (simp add: scrapeUrl_def skipped_outcome_def)
  then show ?thesis
    using checkUrl_step [of s e url "''*''"] denied_reason [OF assms]
    by (simp add: policy_step_def)
qed

theorem denied_short_circuit_witness:
  "\<not> truthy (allowed (fst (checkUrl stub_env ''https://a.test/private'' ''*'' (fresh_world 1000))))
   \<and> map_option fst
        (scrapeUrl 2 stub_env (RateLimiter_new no_options) ''https://a.test/private''
           (fresh_world 1000))
       = Some (Inr \<lparr> o_url = ''https://a.test/private'', status = ''skipped'',
                     o_reason = ''Disallowed by robots.txt'', data = None \<rparr>)
   \<and> map_option (\<lambda>(r, s'). (calls s', globalActive s', limiter_view (trace s')))
        (scrapeUrl 2 stub_env (RateLimiter_new no_options) ''https://a.test/private''
           (fresh_world 1000))
       = Some (0, 0, [])"
proof -
  have d: "\<not> truthy (allowed (fst (checkUrl stub_env ''https://a.test/private'' ''*''
                                    (fresh_world 1000))))"
    by (simp add: checkUrl_def isAllowed_def RobotsChecker_getDomain_def getRobotsParser_def
        fetchRobotsTxt_def stub_env_def stub_parse_url_def stub_axios_get_def
        stub_robotsParser_def stub_same_origin_def fresh_world_def truthy_def Let_def)
  have z: "calls (fresh_world 1000) = 0" "globalActive (fresh_world 1000) = 0"
    "limiter_view (trace (fresh_world 1000)) = []"
    by (simp_all add: fresh_world_def)
  from denied_short_circuit [OF d, of 2 "RateLimiter_new no_options"] d z
  show ?thesis by simp
qed

subsection \<open>Policy checker\<close>

text \<open>
  C6, as amended. \<^verbatim>\<open>checkUrl\<close> returns a record whose reason is the fixed string
  \<^verbatim>\<open>Disallowed by robots.txt\<close> whenever the URL is not allowed and the empty string
  whenever it is allowed.
\<close>

theorem checkUrl_reason:
  "(truthy (allowed (fst (checkUrl e url ua s))) \<longrightarrow> reason (fst (checkUrl e url ua s)) = [])
   \<and> (\<not> truthy (allowed (fst (checkUrl e url ua s))) \<longrightarrow>
        reason (fst (checkUrl e url ua s)) = ''Disallowed by robots.txt'')"
  by (cases "isAllowed e url ua s") (simp add: checkUrl_def)

theorem checkUrl_reason_witness:
  "truthy (allowed (fst (checkUrl stub_env ''https://a.test/x'' ''*'' (fresh_world 1000))))
   \<and> reason (fst (checkUrl stub_env ''https://a.test/x'' ''*'' (fresh_world 1000))) = []
   \<and> \<not> truthy (allowed (fst (checkUrl stub_env ''not a url'' ''*'' (fresh_world 1000))))
   \<and> reason (fst (checkUrl stub_env ''not a url'' ''*'' (fresh_world 1000)))
       = ''Disallowed by robots.txt''"
proof -
  have a: "truthy (allowed (fst (checkUrl stub_env ''https://a.test/x'' ''*'' (fresh_world 1000))))"
    by (simp add: checkUrl_def isAllowed_def RobotsChecker_getDomain_def getRobotsParser_def
        fetchRobotsTxt_def stub_env_def stub_parse_url_def stub_axios_get_def
        stub_robotsParser_def stub_same_origin_def fresh_world_def truthy_def Let_def)
  have d: "\<not> truthy (allowed (fst (checkUrl stub_env ''not a url'' ''*'' (fresh_world 1000))))"
    by (simp add: checkUrl_def isAllowed_def RobotsChecker_getDomain_def
        stub_env_def stub_parse_url_def truthy_def)
  from checkUrl_reason [of stub_env "''https://a.test/x''" "''*''" "fresh_world 1000"]
    checkUrl_reason [of stub_env "''not a url''" "''*''" "fresh_world 1000"] a d
  show ?thesis by blast
qed

text \<open>
  C6 as stated fails: for a URL the policy denies, the reason is not the string
  \<^verbatim>\<open>Disallowed by policy\<close>.
\<close>

theorem checkUrl_reason_counterexample:
  "\<not> truthy (allowed (fst (checkUrl stub_env ''https://a.test/private'' ''*'' (fresh_world 1000))))
   \<and> reason (fst (checkUrl stub_env ''https://a.test/private'' ''*'' (fresh_world 1000)))
       \<noteq> ''Disallowed by policy''"
  by (simp add: checkUrl_def isAllowed_def RobotsChecker_getDomain_def getRobotsParser_def
      fetchRobotsTxt_def stub_env_def stub_parse_url_def stub_axios_get_def
      stub_robotsParser_def stub_same_origin_def fresh_world_def truthy_def Let_def)

text \<open>
  C7, as amended. The constructor of the limiter raises nothing. A concurrency option
  that is absent or 0 is replaced by the default (3 for the global limit, 1 for the
  per-domain limit), so the limit a limiter holds is never 0; any other value is kept
  as given.
\<close>

theorem constructor_limits:
  "globalConcurrency (RateLimiter_new opts) \<noteq> 0
   \<and> perDomainConcurrency (RateLimiter_new opts) \<noteq> 0
   \<and> (opt_concurrency opts = None \<or> opt_concurrency opts = Some 0 \<longrightarrow>
        globalConcurrency (RateLimiter_new opts) = 3)
   \<and> (opt_perDomainConcurrency opts = None \<or> opt_perDomainConcurrency opts = Some 0 \<longrightarrow>
        perDomainConcurrency (RateLimiter_new opts) = 1)
   \<and> (\<forall>v. opt_concurrency opts = Some v \<and> v \<noteq> 0 \<longrightarrow>
        globalConcurrency (RateLimiter_new opts) = v)
   \<and> (\<forall>v. opt_perDomainConcurrency opts = Some v \<and> v \<noteq> 0 \<longrightarrow>
        perDomainConcurrency (RateLimiter_new opts) = v)"
  by (auto simp: RateLimiter_new_def or_default_def split: option.splits)

theorem constructor_limits_witness:
  "opt_concurrency (no_options\<lparr>opt_concurrency := Some 5\<rparr>) = Some 5
   \<and> globalConcurrency (RateLimiter_new (no_options\<lparr>opt_concurrency := Some 5\<rparr>)) = 5
   \<and> opt_perDomainConcurrency (no_options\<lparr>opt_concurrency := Some 5\<rparr>) = None
   \<and> perDomainConcurrency (RateLimiter_new (no_options\<lparr>opt_concurrency := Some 5\<rparr>)) = 1
   \<and> opt_concurrency (no_options\<lparr>opt_perDomainConcurrency := Some 2\<rparr>) = None
   \<and> globalConcurrency (RateLimiter_new (no_options\<lparr>opt_perDomainConcurrency := Some 2\<rparr>)) = 3
   \<and> opt_perDomainConcurrency (no_options\<lparr>opt_perDomainConcurrency := Some 2\<rparr>) = Some 2
   \<and> perDomainConcurrency (RateLimiter_new (no_options\<lparr>opt_perDomainConcurrency := Some 2\<rparr>)) = 2"
proof -
  have o: "opt_concurrency (no_options\<lparr>opt_concurrency := Some 5\<rparr>) = Some 5"
    "opt_perDomainConcurrency (no_options\<lparr>opt_concurrency := Some 5\<rparr>) = None"
    "opt_concurrency (no_options\<lparr>opt_perDomainConcurrency := Some 2\<rparr>) = None"
    "opt_perDomainConcurrency (no_options\<lparr>opt_perDomainConcurrency := Some 2\<rparr>) = Some 2"
    by (simp_all add: no_options_def)
  from constructor_limits [of "no_options\<lparr>opt_concurrency := Some 5\<rparr>"]
    constructor_limits [of "no_options\<lparr>opt_perDomainConcurrency := Some 2\<rparr>"] o
  show ?thesis by simp
qed

text \<open>
  C7 as stated fails: the constructor accepts a global limit of -1 and a per-domain
  limit of 0, keeps the first and replaces the second by 1, and a request to the
  limiter it built is still polling for admission after 1000 polls.
\<close>

theorem constructor_counterexample:
  "globalConcurrency
     (RateLimiter_new (no_options\<lparr>opt_concurrency := Some (- 1), opt_perDomainConcurrency := Some 0\<rparr>))
     = - 1
   \<and> perDomainConcurrency
     (RateLimiter_new (no_options\<lparr>opt_concurrency := Some (- 1), opt_perDomainConcurrency := Some 0\<rparr>))
     = 1
   \<and> execute 1000 stub_env
       (RateLimiter_new (no_options\<lparr>opt_concurrency := Some (- 1), opt_perDomainConcurrency := Some 0\<rparr>))
       ''https://a.test/x'' flaky_then_ok 0 (fresh_world 1000) = None"
proof -
  let ?rl = "RateLimiter_new (no_options\<lparr>opt_concurrency := Some (- 1), opt_perDomainConcurrency := Some 0\<rparr>)"
  have g: "globalConcurrency ?rl = - 1" "perDomainConcurrency ?rl = 1"
    by (simp_all add: RateLimiter_new_def no_options_def or_default_def)
  have "pending (fresh_world 1000) = None" "globalConcurrency ?rl \<le> globalActive (fresh_world 1000)"
    by (simp_all add: g fresh_world_def)
  then have "execute 1000 stub_env ?rl ''https://a.test/x'' flaky_then_ok 0 (fresh_world 1000) = None"
    by (rule execute_stuck)
  with g show ?thesis by simp
qed

text \<open>
  C8 fails on the code for a URL that names a port. The fetch of \<^verbatim>\<open>robots.txt\<close>
  answers 404 and \<^verbatim>\<open>fetchRobotsTxt\<close> answers the empty text, as its comments say
  (\<^verbatim>\<open>return empty string (allow all)\<close>). But \<^verbatim>\<open>getDomain\<close> builds the origin from
  \<^verbatim>\<open>hostname\<close>, which has no port, so the policy is built for
  \<^verbatim>\<open>https://nobots.test/robots.txt\<close>; asked about \<^verbatim>\<open>https://nobots.test:8443/x\<close> it
  answers \<open>undefined\<close>, \<^verbatim>\<open>isAllowed\<close> returns that instead of the boolean its
  documentation promises, \<^verbatim>\<open>checkUrl\<close> reports the URL as disallowed and \<^verbatim>\<open>scrapeUrl\<close>
  skips it.
\<close>

theorem degraded_fetch_port_denied:
  "RobotsChecker_getDomain stub_env ''https://nobots.test:8443/x'' = Some ''https://nobots.test''
   \<and> fst (axios_get stub_env (fetches (fresh_world 1000)) ''https://nobots.test/robots.txt'')
       = Response 404 (Text ''Not Found'')
   \<and> fst (fetchRobotsTxt stub_env ''https://nobots.test'' (fresh_world 1000)) = Text []
   \<and> fst (isAllowed stub_env ''https://nobots.test:8443/x'' ''*'' (fresh_world 1000)) = None
   \<and> fst (checkUrl stub_env ''https://nobots.test:8443/x'' ''*'' (fresh_world 1000))
       = \<lparr> allowed = None, reason = ''Disallowed by robots.txt'' \<rparr>
   \<and> map_option fst
        (scrapeUrl 2 stub_env (RateLimiter_new no_options) ''https://nobots.test:8443/x''
           (fresh_world 1000))
       = Some (Inr \<lparr> o_url = ''https://nobots.test:8443/x'', status = ''skipped'',
                     o_reason = ''Disallowed by robots.txt'', data = None \<rparr>)
   \<and> fst (isAllowed stub_env ''https://nobots.test/x'' ''*'' (fresh_world 1000)) = Some True"
  by code_simp




text \<open>
  C10. \<^verbatim>\<open>isAllowed\<close> answers false, and \<^verbatim>\<open>checkUrl\<close> reports the URL as not allowed,
  when the URL does not parse (no fetch is made then), when building the policy
  throws, and when the policy's own check throws.
\<close>

theorem isAllowed_fails_closed:
  "(parse_url e url = None \<longrightarrow>
      isAllowed e url ua s = (Some False, s)
      \<and> \<not> truthy (allowed (fst (checkUrl e url ua s))))
   \<and> (\<forall>domain err. RobotsChecker_getDomain e url = Some domain
         \<and> fst (getRobotsParser e domain s) = Inl err \<longrightarrow>
      fst (isAllowed e url ua s) = Some False
      \<and> \<not> truthy (allowed (fst (checkUrl e url ua s))))
   \<and> (\<forall>domain parser err. RobotsChecker_getDomain e url = Some domain
         \<and> fst (getRobotsParser e domain s) = Inr parser
         \<and> p_isAllowed parser url ua = Inl err \<longrightarrow>
      fst (isAllowed e url ua s) = Some False
      \<and> \<not> truthy (allowed (fst (checkUrl e url ua s))))"
proof (intro conjI impI allI)
  assume "parse_url e url = None"
  then show "isAllowed e url ua s = (Some False, s)"
    by (simp add: isAllowed_def RobotsChecker_getDomain_def)
  then show "\<not> truthy (allowed (fst (checkUrl e url ua s)))"
    by (simp add: checkUrl_allowed truthy_def)
next
  fix domain err
  assume "RobotsChecker_getDomain e url = Some domain \<and> fst (getRobotsParser e domain s) = Inl err"
  then show a: "fst (isAllowed e url ua s) = Some False"
    using isAllowed_throw by blast
  then show "\<not> truthy (allowed (fst (checkUrl e url ua s)))"
    by (simp add: checkUrl_allowed truthy_def)
next
  fix domain parser err
  assume "RobotsChecker_getDomain e url = Some domain
         \<and> fst (getRobotsParser e domain s) = Inr parser
         \<and> p_isAllowed parser url ua = Inl err"
  then show a: "fst (isAllowed e url ua s) = Some False"
    using isAllowed_parser_throw by blast
  then show "\<not> truthy (allowed (fst (checkUrl e url ua s)))"
    by (simp add: checkUrl_allowed truthy_def)
qed

theorem isAllowed_fails_closed_witness:
  "parse_url stub_env ''not a url'' = None
   \<and> isAllowed stub_env ''not a url'' ''*'' (fresh_world 1000) = (Some False, fresh_world 1000)
   \<and> RobotsChecker_getDomain stub_env ''https://broken.test/x'' = Some ''https://broken.test''
   \<and> fst (getRobotsParser stub_env ''https://broken.test'' (fresh_world 1000))
       = Inl (Error ''parse failure'')
   \<and> fst (isAllowed stub_env ''https://broken.test/x'' ''*'' (fresh_world 1000)) = Some False
   \<and> RobotsChecker_getDomain stub_env ''https://a.test/boom'' = Some ''https://a.test''
   \<and> (\<exists>parser. fst (getRobotsParser stub_env ''https://a.test'' (fresh_world 1000)) = Inr parser
         \<and> p_isAllowed parser ''https://a.test/boom'' ''*'' = Inl (Error ''boom''))
   \<and> fst (isAllowed stub_env ''https://a.test/boom'' ''*'' (fresh_world 1000)) = Some False"
proof -
  have 1: "parse_url stub_env ''not a url'' = None"
    by (simp add: stub_env_def stub_parse_url_def)
  have d1: "RobotsChecker_getDomain stub_env ''https://broken.test/x'' = Some ''https://broken.test''"
    and d2: "RobotsChecker_getDomain stub_env ''https://a.test/boom'' = Some ''https://a.test''"
    by (simp_all add: RobotsChecker_getDomain_def stub_env_def stub_parse_url_def)
  have 2: "fst (getRobotsParser stub_env ''https://broken.test'' (fresh_world 1000))
             = Inl (Error ''parse failure'')"
    by (simp add: getRobotsParser_def fetchRobotsTxt_def stub_env_def stub_axios_get_def
        stub_robotsParser_def stub_same_origin_def stub_parse_url_def fresh_world_def Let_def)
  obtain parser where 3: "fst (getRobotsParser stub_env ''https://a.test'' (fresh_world 1000)) = Inr parser"
    and 4: "p_isAllowed parser ''https://a.test/boom'' ''*'' = Inl (Error ''boom'')"
    by (simp add: getRobotsParser_def fetchRobotsTxt_def stub_env_def stub_axios_get_def
        stub_robotsParser_def stub_same_origin_def stub_parse_url_def fresh_world_def Let_def)
  note t = isAllowed_fails_closed [of stub_env _ "''*''" "fresh_world 1000"]
  from t [of "''not a url''"] 1
  have a: "isAllowed stub_env ''not a url'' ''*'' (fresh_world 1000) = (Some False, fresh_world 1000)"
    by blast
  from t [of "''https://broken.test/x''"] d1 2
  have b: "fst (isAllowed stub_env ''https://broken.test/x'' ''*'' (fresh_world 1000)) = Some False"
    by blast
  from t [of "''https://a.test/boom''"] d2 3 4
  have c: "fst (isAllowed stub_env ''https://a.test/boom'' ''*'' (fresh_world 1000)) = Some False"
    by blast
  from 1 2 3 4 a b c d1 d2 show ?thesis by blast
qed

end
